theory Spec2Isabelle
  imports Main "HOL-Library.Word"
begin

unbundle bit_operations_syntax

section \<open>Machine types and raw memory\<close>

text \<open>
  The extractor of \<^verbatim>\<open>pacextractor.c\<close> overlays two C structs on bytes read from the
  container. Bytes are \<open>8 word\<close>, the \<^verbatim>\<open>int16_t\<close> code units of the name fields are kept
  as their 16-bit patterns, and \<^verbatim>\<open>uint32_t\<close> values are \<open>32 word\<close>, so that \<open>+\<close> and
  \<open>-\<close> wrap as they do in C. A C \<^verbatim>\<open>char\<close> string is a \<open>string\<close>.
\<close>

type_synonym byte = "8 word"
type_synonym u16 = "16 word"
type_synonym u32 = "32 word"

text \<open>Little-endian decoding of a 32-bit field from exactly four bytes.\<close>

fun le32 :: "byte list \<Rightarrow> u32 option" where
  "le32 [b0, b1, b2, b3] =
     Some (word_of_nat (unat b0 + 256 * unat b1 + 65536 * unat b2 + 16777216 * unat b3))"
| "le32 _ = None"

text \<open>
  A 32-bit field at byte offset \<open>off\<close> of an object of \<open>length buf\<close> bytes. \<open>None\<close> is a
  read that leaves the object: undefined behaviour in C.
\<close>

definition read_u32 :: "byte list \<Rightarrow> nat \<Rightarrow> u32 option" where
  "read_u32 buf off = le32 (take 4 (drop off buf))"

text \<open>
  The 16-bit code units that lie in a run of bytes (little-endian). A trailing single
  byte is no code unit: reading it as \<^verbatim>\<open>int16_t\<close> would leave the object.
\<close>

fun units :: "byte list \<Rightarrow> u16 list" where
  "units (lo # hi # bs) = word_of_nat (unat lo + 256 * unat hi) # units bs"
| "units _ = []"

section \<open>The string decoder\<close>

text \<open>
  \<^verbatim>\<open>getString(baseString, resString)\<close>. The source memory is given as the list of code
  units that can be read from \<^verbatim>\<open>baseString\<close> up to the end of the enclosing object; the
  destination pointer is tracked as the offset \<open>p\<close> from the start of the destination, so
  that the test \<^verbatim>\<open>resString - resString > 255\<close> of the source is modelled as written.
  The result is the string stored before the terminating NUL, which is stored at the
  next offset: the call writes \<open>length result + 1\<close> bytes. \<open>None\<close> is a run of code
  units that leaves the object before a zero unit is met.
\<close>

fun getString_loop :: "u16 list \<Rightarrow> nat \<Rightarrow> string \<Rightarrow> string option" where
  "getString_loop [] p res = None"
| "getString_loop (c # cs) p res =
     (if c = 0 then Some res
      else let res' = res @ [char_of (unat (c AND 0xFF))]; p' = p + 1
           in if int p' - int p' > 255 then Some res' else getString_loop cs p' res')"

text \<open>
  The NULL guard of the source: with \<^verbatim>\<open>baseString == NULL\<close> (here \<open>None\<close>) only the
  terminator is stored. Every caller passes the address of an array as destination.
\<close>

definition getString :: "u16 list option \<Rightarrow> string option" where
  "getString baseString =
     (case baseString of None \<Rightarrow> Some [] | Some mem \<Rightarrow> getString_loop mem 0 [])"

text \<open>
  A call \<^verbatim>\<open>getString(field, dest)\<close> with \<^verbatim>\<open>char dest[cap]\<close>: the call is undefined when
  the run of code units leaves the source object, or when the stored characters and
  their terminator do not fit the destination array. The callers then hand the
  destination to \<^verbatim>\<open>printf\<close> or \<^verbatim>\<open>snprintf\<close>, which read it as a C string: up to the first
  NUL, which a non-zero code unit with a zero low byte stores before the terminator.
\<close>

datatype abort = Exit_failure string | Undefined

definition c_str :: "string \<Rightarrow> string" where
  "c_str s = takeWhile (\<lambda>c. c \<noteq> CHR 0x00) s"

definition call_getString :: "nat \<Rightarrow> u16 list \<Rightarrow> abort + string" where
  "call_getString cap mem =
     (case getString (Some mem) of
        None \<Rightarrow> Inl Undefined
      | Some s \<Rightarrow> if length s + 1 > cap then Inl Undefined else Inr (c_str s))"

section \<open>Struct layouts\<close>

text \<open>
  \<^verbatim>\<open>PacHeader\<close>: \<^verbatim>\<open>someField\<close> at 0 (48 bytes), \<^verbatim>\<open>someInt\<close> at 48, \<^verbatim>\<open>productName\<close> at 52,
  \<^verbatim>\<open>firmwareName\<close> at 564, \<^verbatim>\<open>partitionCount\<close> at 1076, \<^verbatim>\<open>partitionsListStart\<close> at 1080,
  then 20 + 100 + 12 + 4 bytes: 1220 bytes in all.
  \<^verbatim>\<open>PartitionHeader\<close>: \<^verbatim>\<open>length\<close> at 0, \<^verbatim>\<open>partitionName\<close> at 4 (256 units), \<^verbatim>\<open>fileName\<close>
  at 516 (512 units), \<^verbatim>\<open>partitionSize\<close> at 1540, \<^verbatim>\<open>someFields1\<close> at 1544,
  \<^verbatim>\<open>partitionAddrInPac\<close> at 1552, \<^verbatim>\<open>someFields2\<close> at 1556, \<^verbatim>\<open>dataArray\<close> at 1568.
  A struct value is the run of bytes it overlays; a field read that leaves the bytes
  actually held is \<open>None\<close>.
\<close>

definition sizeof_PacHeader :: nat where
  "sizeof_PacHeader = 1220"

definition sizeof_PartitionHeader :: nat where
  "sizeof_PartitionHeader = 1568"

definition BUFFER_SIZE :: nat where
  "BUFFER_SIZE = 256 * 1024"

definition pac_firmwareName :: "byte list \<Rightarrow> u16 list" where
  "pac_firmwareName header = units (drop 564 header)"

definition pac_partitionCount :: "byte list \<Rightarrow> u32 option" where
  "pac_partitionCount header = read_u32 header 1076"

definition pac_partitionsListStart :: "byte list \<Rightarrow> u32 option" where
  "pac_partitionsListStart header = read_u32 header 1080"

definition ph_partitionName :: "byte list \<Rightarrow> u16 list" where
  "ph_partitionName partHeader = units (drop 4 partHeader)"

definition ph_fileName :: "byte list \<Rightarrow> u16 list" where
  "ph_fileName partHeader = units (drop 516 partHeader)"

definition ph_partitionSize :: "byte list \<Rightarrow> u32 option" where
  "ph_partitionSize partHeader = read_u32 partHeader 1540"

definition ph_partitionAddrInPac :: "byte list \<Rightarrow> u32 option" where
  "ph_partitionAddrInPac partHeader = read_u32 partHeader 1552"

section \<open>The world outside the program\<close>

text \<open>
  What the program prints on standard output, as events; the progress bar is the pair
  handed to \<^verbatim>\<open>printProgressBar\<close>.
\<close>

datatype event =
    Usage
  | Version_info
  | Firmware_name string
  | Partition_info string string u32
  | Extracting string
  | Progress u32 u32
  | Newline

text \<open>
  The file system: regular files by path, directories, and the number of bytes the
  destination device still accepts (a \<^verbatim>\<open>write\<close> beyond it is short).
\<close>

record world =
  files :: "string \<rightharpoonup> byte list"
  dirs :: "string set"
  disk_free :: nat
  stdout :: "event list"

text \<open>
  What the platform decides: the size of a pointer and of \<^verbatim>\<open>size_t\<close> in bytes, and
  which calls of \<^verbatim>\<open>malloc\<close>, \<^verbatim>\<open>fstat\<close>, \<^verbatim>\<open>mkdir\<close>, \<^verbatim>\<open>remove\<close> (of an existing path) and
  \<^verbatim>\<open>open\<close> (for writing, in an existing directory) it lets succeed. \<^verbatim>\<open>off_t\<close> is taken
  wider than 32 bits, so every
  \<^verbatim>\<open>lseek\<close> to a \<^verbatim>\<open>uint32_t\<close> offset succeeds, and a \<^verbatim>\<open>read\<close> on the container
  returns the bytes asked for unless the end of the file cuts it short.
\<close>

record env =
  ptr_size :: nat
  malloc_ok :: "nat \<Rightarrow> bool"
  fstat_ok :: bool
  mkdir_ok :: "string \<Rightarrow> bool"
  remove_ok :: "string \<Rightarrow> bool"
  creat_ok :: "string \<Rightarrow> bool"

definition fd_read :: "byte list \<Rightarrow> nat \<Rightarrow> nat \<Rightarrow> byte list" where
  "fd_read pac pos n = take n (drop pos pac)"

text \<open>
  \<^verbatim>\<open>write\<close> on the destination descriptor appends the bytes the device accepts and
  returns their number.
\<close>

definition fd_write :: "string \<Rightarrow> byte list \<Rightarrow> world \<Rightarrow> nat \<times> world" where
  "fd_write path buf w =
     (let k = min (length buf) (disk_free w);
          old = (case files w path of None \<Rightarrow> [] | Some bs \<Rightarrow> bs)
      in (k, w\<lparr>files := (files w)(path \<mapsto> old @ take k buf), disk_free := disk_free w - k\<rparr>))"

definition put :: "event \<Rightarrow> world \<Rightarrow> world" where
  "put ev w = w\<lparr>stdout := stdout w @ [ev]\<rparr>"

section \<open>The partition record reader\<close>

text \<open>
  \<^verbatim>\<open>readPartitionHeader(fd, &curPos)\<close>: seek to \<^verbatim>\<open>curPos\<close>, read the 4-byte length,
  allocate that many bytes, seek back, read the whole record, advance \<^verbatim>\<open>curPos\<close> by the
  length in \<^verbatim>\<open>uint32_t\<close> arithmetic. The result is the record buffer and the new
  \<^verbatim>\<open>curPos\<close>.
\<close>

definition readPartitionHeader :: "env \<Rightarrow> byte list \<Rightarrow> u32 \<Rightarrow> abort + (byte list \<times> u32)" where
  "readPartitionHeader e pac curPos =
     (case le32 (fd_read pac (unat curPos) 4) of
        None \<Rightarrow> Inl (Exit_failure ''Error while reading partition header length'')
      | Some len \<Rightarrow>
          if \<not> malloc_ok e (unat len) then Inl (Exit_failure ''Memory allocation failed'')
          else let header = fd_read pac (unat curPos) (unat len)
               in if length header \<noteq> unat len
                  then Inl (Exit_failure ''Error while reading partition header'')
                  else Inr (header, curPos + len))"

section \<open>The partition extractor\<close>

text \<open>
  The state of the streaming loop of \<^verbatim>\<open>extractPartition\<close>: the two counters, the
  position of the container descriptor, and the world.
\<close>

record copy_state =
  dataSizeLeft :: u32
  dataSizeRead :: u32
  fpos :: nat
  wld :: world

text \<open>
  One pass through the loop body: choose \<^verbatim>\<open>copyLength\<close>, read, compare, write, compare,
  update both counters, report progress. A short read or short write leaves the loop
  with \<^verbatim>\<open>exit(EXIT_FAILURE)\<close> and the world as it is at that point.
\<close>

definition copy_step ::
  "byte list \<Rightarrow> string \<Rightarrow> u32 \<Rightarrow> copy_state \<Rightarrow> (abort \<times> world) + copy_state" where
  "copy_step pac path partitionSize s =
     (let copyLength = (if unat (dataSizeLeft s) > BUFFER_SIZE
                        then word_of_nat BUFFER_SIZE else dataSizeLeft s);
          buffer = fd_read pac (fpos s) (unat copyLength)
      in if length buffer \<noteq> unat copyLength
         then Inl (Exit_failure ''Error while reading partition data'', wld s)
         else (case fd_write path buffer (wld s) of
                 (wb, w') \<Rightarrow>
                   if wb \<noteq> unat copyLength
                   then Inl (Exit_failure ''Error while writing partition data'', w')
                   else Inr \<lparr>dataSizeLeft = dataSizeLeft s - copyLength,
                             dataSizeRead = dataSizeRead s + copyLength,
                             fpos = fpos s + length buffer,
                             wld = put (Progress (dataSizeRead s + copyLength) partitionSize) w'\<rparr>))"

lemma copy_step_decreases:
  assumes "0 < dataSizeLeft s" and "copy_step pac path partitionSize s = Inr s'"
  shows "unat (dataSizeLeft s') < unat (dataSizeLeft s)"
proof (cases "unat (dataSizeLeft s) > BUFFER_SIZE")
  case True
  have c: "unat (word_of_nat BUFFER_SIZE :: u32) = BUFFER_SIZE"
    by (simp add: BUFFER_SIZE_def)
  have le: "(word_of_nat BUFFER_SIZE :: u32) \<le> dataSizeLeft s"
    using True c by (simp add: word_le_nat_alt)
  have "dataSizeLeft s' = dataSizeLeft s - word_of_nat BUFFER_SIZE"
    using assms(2) True
    by (auto simp: copy_step_def Let_def split: if_splits prod.splits)
  then have "unat (dataSizeLeft s') = unat (dataSizeLeft s) - BUFFER_SIZE"
    using le c by (simp add: unat_sub)
  then show ?thesis using True by (simp add: BUFFER_SIZE_def)
next
  case False
  have "dataSizeLeft s' = 0"
    using assms(2) False
    by (auto simp: copy_step_def Let_def split: if_splits prod.splits)
  then show ?thesis using assms(1) by (simp add: word_less_nat_alt)
qed

function copy_loop ::
  "byte list \<Rightarrow> string \<Rightarrow> u32 \<Rightarrow> copy_state \<Rightarrow> (abort + unit) \<times> world" where
  "copy_loop pac path partitionSize s =
     (if dataSizeLeft s > 0
      then (case copy_step pac path partitionSize s of
              Inl (a, w) \<Rightarrow> (Inl a, w)
            | Inr s' \<Rightarrow> copy_loop pac path partitionSize s')
      else (Inr (), wld s))"
  by pat_completeness auto
termination
  by (relation "measure (\<lambda>(pac, path, partitionSize, s). unat (dataSizeLeft s))")
     (auto intro: copy_step_decreases)

declare copy_loop.simps [simp del]

text \<open>
  The states the loop passes through from a state \<open>s\<close>: \<open>s\<close> itself, and the state
  after one more pass of the body from any of them whose guard \<^verbatim>\<open>dataSizeLeft > 0\<close> holds.
\<close>

inductive iterates :: "byte list \<Rightarrow> string \<Rightarrow> u32 \<Rightarrow> copy_state \<Rightarrow> copy_state \<Rightarrow> bool"
  for pac path partitionSize where
  iterates_start: "iterates pac path partitionSize s s"
| iterates_step: "iterates pac path partitionSize s t \<Longrightarrow> dataSizeLeft t > 0 \<Longrightarrow>
     copy_step pac path partitionSize t = Inr t' \<Longrightarrow> iterates pac path partitionSize s t'"

text \<open>
  \<^verbatim>\<open>remove(outputFilePath)\<close>: a path that does not exist gives \<^verbatim>\<open>ENOENT\<close>, which the
  caller ignores; \<open>None\<close> is any other failure.
\<close>

definition remove_file :: "env \<Rightarrow> string \<Rightarrow> world \<Rightarrow> world option" where
  "remove_file e path w =
     (if files w path \<noteq> None \<or> path \<in> dirs w
      then (if remove_ok e path
            then Some (w\<lparr>files := (files w)(path := None), dirs := dirs w - {path}\<rparr>)
            else None)
      else Some w)"

text \<open>
  \<^verbatim>\<open>open(outputFilePath, O_WRONLY | O_CREAT | O_TRUNC, 0666)\<close>: the directory part of the
  path (what precedes its last \<^verbatim>\<open>'/'\<close>; empty for a path in the current or the root
  directory) must exist, the path must not name a directory, and the platform must
  allow it. The file is then there and empty. \<open>None\<close> is the failure.
\<close>

definition dir_part :: "string \<Rightarrow> string" where
  "dir_part path = rev (drop 1 (dropWhile (\<lambda>c. c \<noteq> CHR ''/'') (rev path)))"

definition open_new :: "env \<Rightarrow> string \<Rightarrow> world \<Rightarrow> world option" where
  "open_new e path w =
     (if creat_ok e path \<and> path \<notin> dirs w \<and> (dir_part path = [] \<or> dir_part path \<in> dirs w)
      then Some (w\<lparr>files := (files w)(path \<mapsto> [])\<rparr>)
      else None)"

text \<open>
  \<^verbatim>\<open>snprintf(outputFilePath, sizeof(outputFilePath), "%s/%s", outputPath, fileName)\<close> with
  \<^verbatim>\<open>char outputFilePath[768]\<close>: at most 767 characters are kept.
\<close>

definition output_file :: "string \<Rightarrow> string \<Rightarrow> string" where
  "output_file outputPath fileName = take 767 (outputPath @ ''/'' @ fileName)"

text \<open>
  The state in which \<^verbatim>\<open>extractPartition\<close> enters its loop: after the seek to the payload,
  with both counters set and \<^verbatim>\<open>Extracting to ...\<close> printed.
\<close>

definition stream_start :: "string \<Rightarrow> u32 \<Rightarrow> u32 \<Rightarrow> world \<Rightarrow> copy_state" where
  "stream_start path partitionSize addr w =
     \<lparr>dataSizeLeft = partitionSize, dataSizeRead = 0, fpos = unat addr,
      wld = put (Extracting path) w\<rparr>"

definition extractPartition ::
  "env \<Rightarrow> byte list \<Rightarrow> byte list \<Rightarrow> string \<Rightarrow> world \<Rightarrow> (abort + unit) \<times> world" where
  "extractPartition e pac partHeader outputPath w =
     (case ph_partitionSize partHeader of
        None \<Rightarrow> (Inl Undefined, w)
      | Some partitionSize \<Rightarrow>
          if partitionSize = 0 then (Inr (), w)
          else (case ph_partitionAddrInPac partHeader of
            None \<Rightarrow> (Inl Undefined, w)
          | Some addr \<Rightarrow>
              if \<not> malloc_ok e BUFFER_SIZE
              then (Inl (Exit_failure ''Memory allocation failed''), w)
              else (case call_getString 512 (ph_fileName partHeader) of
                Inl a \<Rightarrow> (Inl a, w)
              | Inr fileName \<Rightarrow>
                  let outputFilePath = output_file outputPath fileName
                  in (case remove_file e outputFilePath w of
                    None \<Rightarrow> (Inl (Exit_failure ''Error removing existing output file''), w)
                  | Some w1 \<Rightarrow>
                      (case open_new e outputFilePath w1 of
                        None \<Rightarrow> (Inl (Exit_failure ''Error creating output file''), w1)
                      | Some w2 \<Rightarrow>
                          (case copy_loop pac outputFilePath partitionSize
                                  (stream_start outputFilePath partitionSize addr w2) of
                             (Inl a, w3) \<Rightarrow> (Inl a, w3)
                           | (Inr u, w3) \<Rightarrow> (Inr (), put Newline w3)))))))"

section \<open>The driver\<close>

definition printUsage :: "world \<Rightarrow> world" where
  "printUsage w = put Usage w"

definition printUsageAndExit :: "world \<Rightarrow> (abort + unit) \<times> world" where
  "printUsageAndExit w = (Inl (Exit_failure []), printUsage w)"

text \<open>
  The pair \<^verbatim>\<open>access(temp, F_OK)\<close>, \<^verbatim>\<open>mkdir(temp, 0777)\<close> of \<^verbatim>\<open>createOutputDirectory\<close>, and
  the function itself: it copies the path into \<^verbatim>\<open>char temp[768]\<close>, makes every prefix
  that ends before a \<^verbatim>\<open>'/'\<close>, then the whole path.
\<close>

definition make_dir :: "env \<Rightarrow> string \<Rightarrow> world \<Rightarrow> abort + world" where
  "make_dir e temp w =
     (if files w temp \<noteq> None \<or> temp \<in> dirs w then Inr w
      else if mkdir_ok e temp then Inr (w\<lparr>dirs := insert temp (dirs w)\<rparr>)
      else Inl (Exit_failure ''Failed to create output directory''))"

fun make_prefixes :: "env \<Rightarrow> string \<Rightarrow> string \<Rightarrow> world \<Rightarrow> abort + world" where
  "make_prefixes e pre [] w = Inr w"
| "make_prefixes e pre (c # cs) w =
     (if c = CHR ''/''
      then (case make_dir e pre w of
              Inl a \<Rightarrow> Inl a
            | Inr w' \<Rightarrow> make_prefixes e (pre @ [c]) cs w')
      else make_prefixes e (pre @ [c]) cs w)"

definition createOutputDirectory :: "env \<Rightarrow> string \<Rightarrow> world \<Rightarrow> abort + world" where
  "createOutputDirectory e path w =
     (if length path + 1 > 768 then Inl Undefined
      else (case make_prefixes e [] path w of
              Inl a \<Rightarrow> Inl a
            | Inr w' \<Rightarrow> make_dir e path w'))"

definition readPacHeader :: "byte list \<Rightarrow> abort + byte list" where
  "readPacHeader pac =
     (let header = fd_read pac 0 sizeof_PacHeader
      in if length header \<noteq> sizeof_PacHeader
         then Inl (Exit_failure ''Error while reading PAC header'')
         else Inr header)"

text \<open>
  The first loop of \<^verbatim>\<open>main\<close>, \<^verbatim>\<open>for (int i = 0; i < pacHeader.partitionCount; i++)\<close>: read
  the record at \<^verbatim>\<open>curPos\<close>, store its address in \<^verbatim>\<open>partHeaders[i]\<close>, decode and print its
  two names and its size. \<open>partitionCount\<close> and \<open>i\<close> are the values of the two
  \<^verbatim>\<open>int\<close>s; \<open>allocated\<close> is the number of bytes \<^verbatim>\<open>partHeaders\<close> was allocated with, and a
  store beyond them is undefined.
\<close>

function read_headers ::
  "env \<Rightarrow> nat \<Rightarrow> byte list \<Rightarrow> int \<Rightarrow> int \<Rightarrow> u32 \<Rightarrow> byte list list \<Rightarrow> world
   \<Rightarrow> (abort + byte list list) \<times> world" where
  "read_headers e allocated pac partitionCount i curPos partHeaders w =
     (if i < partitionCount
      then (case readPartitionHeader e pac curPos of
              Inl a \<Rightarrow> (Inl a, w)
            | Inr (header, curPos') \<Rightarrow>
                if allocated < (nat i + 1) * ptr_size e then (Inl Undefined, w)
                else
                (case call_getString 256 (ph_partitionName header) of
                   Inl a \<Rightarrow> (Inl a, w)
                 | Inr partitionName \<Rightarrow>
                     (case call_getString 512 (ph_fileName header) of
                        Inl a \<Rightarrow> (Inl a, w)
                      | Inr fileName \<Rightarrow>
                          (case ph_partitionSize header of
                             None \<Rightarrow> (Inl Undefined, w)
                           | Some partitionSize \<Rightarrow>
                               read_headers e allocated pac partitionCount (i + 1) curPos'
                                 (partHeaders @ [header])
                                 (put (Partition_info partitionName fileName partitionSize) w)))))
      else (Inr partHeaders, w))"
  by pat_completeness auto
termination
  by (relation "measure (\<lambda>(e, allocated, pac, partitionCount, i, curPos, partHeaders, w).
                   nat (partitionCount - i))") auto

declare read_headers.simps [simp del]

text \<open>The second loop of \<^verbatim>\<open>main\<close>: extract the kept records in order.\<close>

fun extract_headers ::
  "env \<Rightarrow> byte list \<Rightarrow> string \<Rightarrow> byte list list \<Rightarrow> world \<Rightarrow> (abort + unit) \<times> world" where
  "extract_headers e pac outputPath [] w = (Inr (), w)"
| "extract_headers e pac outputPath (partHeader # rest) w =
     (case extractPartition e pac partHeader outputPath w of
        (Inl a, w') \<Rightarrow> (Inl a, w')
      | (Inr u, w') \<Rightarrow> extract_headers e pac outputPath rest w')"

text \<open>
  The value of an \<^verbatim>\<open>int\<close> converted to \<^verbatim>\<open>size_t\<close>, and the product
  \<^verbatim>\<open>partitionCount * sizeof(PartitionHeader*)\<close> in \<^verbatim>\<open>size_t\<close> arithmetic.
\<close>

definition to_size_t :: "env \<Rightarrow> int \<Rightarrow> nat" where
  "to_size_t e x = nat (x mod 2 ^ (8 * ptr_size e))"

definition headers_alloc_size :: "env \<Rightarrow> int \<Rightarrow> nat" where
  "headers_alloc_size e partitionCount =
     (to_size_t e partitionCount * ptr_size e) mod 2 ^ (8 * ptr_size e)"

text \<open>
  The \<^verbatim>\<open>-e ... -o ...\<close> branch of \<^verbatim>\<open>main\<close>. \<^verbatim>\<open>firmwareSize\<close> is \<^verbatim>\<open>st.st_size\<close> cut to an
  \<^verbatim>\<open>int\<close>, and its comparison with \<^verbatim>\<open>sizeof(PacHeader)\<close> is made in \<^verbatim>\<open>size_t\<close>. The
  container is read through the descriptor opened first, so its bytes \<open>pac\<close> stay what
  they were at that moment.
\<close>

definition main_extract :: "env \<Rightarrow> string \<Rightarrow> string \<Rightarrow> world \<Rightarrow> (abort + unit) \<times> world" where
  "main_extract e firmwarePath outputPath w =
     (case files w firmwarePath of
        None \<Rightarrow> (Inl (Exit_failure firmwarePath), w)
      | Some pac \<Rightarrow>
          if \<not> fstat_ok e then (Inl (Exit_failure ''Error getting file stats''), w)
          else let firmwareSize = sint (word_of_nat (length pac) :: 32 word)
               in if to_size_t e firmwareSize < sizeof_PacHeader
                  then (Inl (Exit_failure (''File '' @ firmwarePath @ '' is not a valid firmware'')), w)
                  else (case createOutputDirectory e outputPath w of
                     Inl a \<Rightarrow> (Inl a, w)
                   | Inr w1 \<Rightarrow>
                   (case readPacHeader pac of
                     Inl a \<Rightarrow> (Inl a, w1)
                   | Inr pacHeader \<Rightarrow>
                   (case call_getString 256 (pac_firmwareName pacHeader) of
                     Inl a \<Rightarrow> (Inl a, w1)
                   | Inr firmwareName \<Rightarrow>
                   (case (pac_partitionsListStart pacHeader, pac_partitionCount pacHeader) of
                     (Some curPos, Some count) \<Rightarrow>
                       let w2 = put (Firmware_name firmwareName) w1
                       in if \<not> malloc_ok e (headers_alloc_size e (sint count))
                          then (Inl (Exit_failure
                                  ''Memory allocation failed for partition headers''), w2)
                          else (case read_headers e (headers_alloc_size e (sint count)) pac
                                       (sint count) 0 curPos [] w2 of
                                  (Inl a, w3) \<Rightarrow> (Inl a, w3)
                                | (Inr partHeaders, w3) \<Rightarrow>
                                    extract_headers e pac outputPath partHeaders w3)
                   | _ \<Rightarrow> (Inl Undefined, w1))))))"

text \<open>
  \<^verbatim>\<open>main(argc, argv)\<close>; \<open>Inr ()\<close> is \<^verbatim>\<open>EXIT_SUCCESS\<close>, \<open>Inl (Exit_failure d)\<close> is
  \<^verbatim>\<open>exit(EXIT_FAILURE)\<close> after the diagnostic \<open>d\<close> on standard error (empty where the
  source prints none there).
\<close>

definition main :: "env \<Rightarrow> string list \<Rightarrow> world \<Rightarrow> (abort + unit) \<times> world" where
  "main e argv w =
     (if length argv < 5 then printUsageAndExit w
      else if argv ! 1 = ''-h'' then (Inr (), printUsage w)
      else if argv ! 1 = ''-v'' then (Inr (), put Version_info w)
      else if argv ! 1 = ''-e'' \<and> argv ! 3 = ''-o''
           then main_extract e (argv ! 2) (argv ! 4) w
      else printUsageAndExit w)"

text \<open>The number of partition records a run has printed.\<close>

definition records_printed :: "event list \<Rightarrow> nat" where
  "records_printed evs =
     length (filter (\<lambda>ev. case ev of Partition_info n f z \<Rightarrow> True | _ \<Rightarrow> False) evs)"

definition exit_code :: "abort + unit \<Rightarrow> nat option" where
  "exit_code r = (case r of Inr u \<Rightarrow> Some 0 | Inl (Exit_failure d) \<Rightarrow> Some 1 | Inl Undefined \<Rightarrow> None)"

section \<open>Sample platforms and containers\<close>

text \<open>
  Two platforms on which the theorems below are instantiated: 64-bit and 32-bit
  pointers, with a \<^verbatim>\<open>malloc\<close> that serves every request up to \<^verbatim>\<open>PTRDIFF_MAX\<close> (a
  request of 0 bytes included, as glibc does).
\<close>

definition lp64 :: env where
  "lp64 = \<lparr>ptr_size = 8, malloc_ok = (\<lambda>n. n < 2 ^ 63), fstat_ok = True,
           mkdir_ok = (\<lambda>p. p \<noteq> []), remove_ok = (\<lambda>p. True), creat_ok = (\<lambda>p. True)\<rparr>"

definition ilp32 :: env where
  "ilp32 = \<lparr>ptr_size = 4, malloc_ok = (\<lambda>n. n < 2 ^ 31), fstat_ok = True,
            mkdir_ok = (\<lambda>p. p \<noteq> []), remove_ok = (\<lambda>p. True), creat_ok = (\<lambda>p. True)\<rparr>"

text \<open>
  A partition record of the minimal length 1568 (\<open>0x620\<close>) with partition name \<open>a\<close>,
  file name \<open>b\<close> and the given size and payload address bytes; a container part made
  of two such records; and a world with no files.
\<close>

definition sample_record :: "byte list \<Rightarrow> byte list \<Rightarrow> byte list" where
  "sample_record size4 addr4 =
     [0x20, 0x06, 0, 0] @ [0x61, 0, 0, 0] @ replicate 508 0 @ [0x62, 0, 0, 0] @ replicate 1020 0
     @ size4 @ replicate 8 0 @ addr4 @ replicate 12 0"

definition two_records :: "byte list" where
  "two_records = sample_record [0, 0, 0, 0] [0, 0, 0, 0] @ sample_record [5, 0, 0, 0] [0, 0, 0, 0]"

definition no_files :: world where
  "no_files = \<lparr>files = Map.empty, dirs = {}, disk_free = 1000, stdout = []\<rparr>"

text \<open>
  A payload of 300000 bytes, more than one buffer of 256 KiB, and the state in which
  the streaming loop starts on it, in a world with the directory \<open>out\<close>.
\<close>

definition big_pac :: "byte list" where
  "big_pac = replicate 300000 7"

definition big_start :: copy_state where
  "big_start = \<lparr>dataSizeLeft = 300000, dataSizeRead = 0, fpos = 0,
      wld = \<lparr>files = [''out/b'' \<mapsto> []], dirs = {''out''}, disk_free = 1000000,
             stdout = []\<rparr>\<rparr>"

text \<open>
  The record of that payload (\<^verbatim>\<open>partitionSize = 300000 = 0x493E0\<close>, payload address 0,
  file name \<open>b\<close>); a container that ends after 280000 bytes of it; and worlds that
  hold the directory \<open>out\<close> and nothing else, on a device with room for the given
  number of bytes.
\<close>

definition big_record :: "byte list" where
  "big_record = sample_record [0xE0, 0x93, 0x04, 0] [0, 0, 0, 0]"

definition cut_pac :: "byte list" where
  "cut_pac = replicate 280000 7"

definition out_world :: "nat \<Rightarrow> world" where
  "out_world room = \<lparr>files = Map.empty, dirs = {''out''}, disk_free = room, stdout = []\<rparr>"

text \<open>
  That world once \<open>out/b\<close> is open, and the state of the streaming loop after its first
  pass over the 300000-byte payload, one full buffer copied.
\<close>

definition big_opened :: "nat \<Rightarrow> world" where
  "big_opened room =
     \<lparr>files = [''out/b'' \<mapsto> []], dirs = {''out''}, disk_free = room, stdout = []\<rparr>"

definition big_second :: "nat \<Rightarrow> copy_state" where
  "big_second room = \<lparr>dataSizeLeft = 37856, dataSizeRead = 262144, fpos = 262144,
      wld = \<lparr>files = [''out/b'' \<mapsto> replicate 262144 7], dirs = {''out''},
             disk_free = room - 262144,
             stdout = [Extracting ''out/b'', Progress 262144 300000]\<rparr>\<rparr>"

text \<open>A world whose only file, \<open>fw.pac\<close>, is three bytes long.\<close>

definition tiny_container :: world where
  "tiny_container = \<lparr>files = [''fw.pac'' \<mapsto> [1, 2, 3]], dirs = {}, disk_free = 1000, stdout = []\<rparr>"

text \<open>
  A container that is just a header, with \<^verbatim>\<open>partitionCount = 0xC0000000\<close> (the \<^verbatim>\<open>int\<close>
  \<open>- 2 ^ 30\<close>), an empty firmware name and \<^verbatim>\<open>partitionsListStart = 0\<close>; and a world
  that holds it as \<open>fw.pac\<close>.
\<close>

definition negative_count_header :: "byte list" where
  "negative_count_header =
     replicate 564 0 @ [0, 0] @ replicate 510 0 @ [0, 0, 0, 0xC0] @ [0, 0, 0, 0] @ replicate 136 0"

definition negative_count_world :: world where
  "negative_count_world =
     \<lparr>files = [''fw.pac'' \<mapsto> negative_count_header], dirs = {}, disk_free = 1000, stdout = []\<rparr>"

text \<open>
  A whole container: a header with firmware name \<open>f\<close>, \<^verbatim>\<open>partitionCount = 2\<close> and
  \<^verbatim>\<open>partitionsListStart = 1220\<close>, followed by the two sample records (of payload sizes 0
  and 5, both at payload address 0); the world that holds it as \<open>fw.pac\<close>; and the
  world after the run.
\<close>

definition full_header :: "byte list" where
  "full_header =
     replicate 564 0 @ [0x66, 0, 0, 0] @ replicate 508 0 @ [2, 0, 0, 0] @ [0xC4, 0x04, 0, 0]
     @ replicate 136 0"

definition full_container :: "byte list" where
  "full_container = full_header @ two_records"

definition full_world :: world where
  "full_world = \<lparr>files = [''fw.pac'' \<mapsto> full_container], dirs = {}, disk_free = 1000, stdout = []\<rparr>"

definition full_result :: world where
  "full_result =
     \<lparr>files = [''fw.pac'' \<mapsto> full_container, ''out/b'' \<mapsto> [0, 0, 0, 0, 0]],
      dirs = {''out''}, disk_free = 995,
      stdout = [Firmware_name ''f'', Partition_info ''a'' ''b'' 0, Partition_info ''a'' ''b'' 5,
                Extracting ''out/b'', Progress 5 5, Newline]\<rparr>"

section \<open>Properties of the string decoder\<close>

lemma getString_loop_nonzero_run:
  "\<forall>c \<in> set cs. c \<noteq> 0 \<Longrightarrow>
   getString_loop (cs @ 0 # rest) p res = Some (res @ map (\<lambda>c. char_of (unat (c AND 0xFF))) cs)"
  by (induction cs arbitrary: p res) simp_all

lemma getString_length_unbounded:
  "\<forall>c \<in> set cs. c \<noteq> 0 \<Longrightarrow>
   map_option length (getString (Some (cs @ 0 # rest))) = Some (length cs)"
  by (simp add: getString_def getString_loop_nonzero_run)

text \<open>
  Claim C1. The decoder is to write at most \<open>maxOutputLength\<close> bytes, whatever the
  field holds. The source has no such parameter; its only limit is the test after each
  stored byte, which subtracts the destination pointer from itself and therefore never
  fires. On 300 non-zero code units followed by a zero unit the decoder stores 300
  characters (and the terminator after them), more than the 255 of the test and more
  than the 256-byte destination of a partition name.
\<close>

theorem getString_exceeds_bound:
  "getString (Some (replicate 300 0x41 @ [0])) = Some (replicate 300 (CHR ''A''))
   \<and> length (replicate 300 (CHR ''A'')) + 1 > 256"
proof -
  have a: "char_of (65 :: nat) = CHR ''A''" by code_simp
  have "\<forall>c \<in> set (replicate 300 (0x41 :: u16)). c \<noteq> 0" by simp
  then have "getString_loop (replicate 300 (0x41 :: u16) @ 0 # []) 0 [] =
      Some ([] @ map (\<lambda>c. char_of (unat (c AND 0xFF))) (replicate 300 (0x41 :: u16)))"
    by (rule getString_loop_nonzero_run)
  then show ?thesis by (simp add: getString_def a)
qed

section \<open>Evaluating the sample inputs\<close>

lemma char_of_97: "char_of (97 :: nat) = CHR ''a''"
  by code_simp

lemma char_of_98: "char_of (98 :: nat) = CHR ''b''"
  by code_simp

lemma length_sample_record:
  "length size4 = 4 \<Longrightarrow> length addr4 = 4 \<Longrightarrow> length (sample_record size4 addr4) = 1568"
  by (simp add: sample_record_def)

lemma sample_partitionSize:
  "length size4 = 4 \<Longrightarrow> ph_partitionSize (sample_record size4 addr4) = le32 size4"
  by (simp add: sample_record_def ph_partitionSize_def read_u32_def)

lemma sample_partitionAddrInPac:
  "length size4 = 4 \<Longrightarrow> length addr4 = 4 \<Longrightarrow>
   ph_partitionAddrInPac (sample_record size4 addr4) = le32 addr4"
  by (simp add: sample_record_def ph_partitionAddrInPac_def read_u32_def)

lemma sample_partitionName:
  "call_getString 256 (ph_partitionName (sample_record size4 addr4)) = Inr ''a''"
  by (simp add: sample_record_def ph_partitionName_def call_getString_def getString_def
      char_of_97 c_str_def)

lemma sample_fileName:
  "call_getString 512 (ph_fileName (sample_record size4 addr4)) = Inr ''b''"
  by (simp add: sample_record_def ph_fileName_def call_getString_def getString_def char_of_98
      c_str_def)

lemma fd_read_whole: "fd_read (xs @ rest) 0 (length xs) = xs"
  by (simp add: fd_read_def)

lemma fd_read_at: "fd_read (xs @ rest) (length xs) n = fd_read rest 0 n"
  by (simp add: fd_read_def)

lemma sample_prefix: "fd_read (sample_record s a @ rest) 0 4 = [0x20, 0x06, 0, 0]"
  by (simp add: fd_read_def sample_record_def)

lemma read_sample_record:
  assumes "length s = 4" and "length a = 4" and "malloc_ok e 1568"
  shows "readPartitionHeader e (sample_record s a @ rest) 0 = Inr (sample_record s a, 1568)"
proof -
  have "fd_read (sample_record s a @ rest) 0 1568 = sample_record s a"
    using fd_read_whole [of "sample_record s a" rest] assms by (simp add: length_sample_record)
  then show ?thesis
    using assms by (simp add: readPartitionHeader_def sample_prefix length_sample_record)
qed

lemma read_first_of_two:
  "readPartitionHeader lp64 two_records 0 = Inr (sample_record [0, 0, 0, 0] [0, 0, 0, 0], 1568)"
  unfolding two_records_def by (rule read_sample_record) (simp_all add: lp64_def)

lemma read_second_of_two:
  "readPartitionHeader lp64 two_records 1568 = Inr (sample_record [5, 0, 0, 0] [0, 0, 0, 0], 3136)"
proof -
  have a: "fd_read two_records 1568 n = fd_read (sample_record [5, 0, 0, 0] [0, 0, 0, 0] @ []) 0 n"
    for n
    using fd_read_at [of "sample_record [0, 0, 0, 0] [0, 0, 0, 0]"
        "sample_record [5, 0, 0, 0] [0, 0, 0, 0]" n]
    by (simp add: length_sample_record two_records_def)
  have "fd_read (sample_record [5, 0, 0, 0] [0, 0, 0, 0] @ []) 0 1568
      = sample_record [5, 0, 0, 0] [0, 0, 0, 0]"
    using fd_read_whole [of "sample_record [5, 0, 0, 0] [0, 0, 0, 0]" "[]"]
    by (simp add: length_sample_record)
  then show ?thesis
    by (simp add: readPartitionHeader_def a sample_prefix length_sample_record lp64_def
        del: append_Nil2)
qed

lemma ptr_size_lp64: "ptr_size lp64 = 8"
  by (simp add: lp64_def)

lemma read_headers_two_records:
  "read_headers lp64 16 two_records 2 0 0 [] no_files =
     (Inr [sample_record [0, 0, 0, 0] [0, 0, 0, 0], sample_record [5, 0, 0, 0] [0, 0, 0, 0]],
      put (Partition_info ''a'' ''b'' 5) (put (Partition_info ''a'' ''b'' 0) no_files))"
  apply (subst read_headers.simps)
  apply (simp add: read_first_of_two sample_partitionName sample_fileName sample_partitionSize
      ptr_size_lp64)
  apply (subst read_headers.simps)
  apply (simp add: read_second_of_two sample_partitionName sample_fileName
      sample_partitionSize ptr_size_lp64)
  apply (subst read_headers.simps)
  apply simp
  done

section \<open>Properties of the streaming loop\<close>

lemma copyLength_unat:
  "unat (if unat l > BUFFER_SIZE then word_of_nat BUFFER_SIZE else (l::u32)) = min (unat l) BUFFER_SIZE"
  by (auto simp: BUFFER_SIZE_def min_def)

lemma copy_step_Inr:
  assumes "copy_step pac path n s = Inr s'"
  defines "c \<equiv> min (unat (dataSizeLeft s)) BUFFER_SIZE"
    and "cur \<equiv> (case files (wld s) path of None \<Rightarrow> [] | Some bs \<Rightarrow> bs)"
  shows "unat (dataSizeLeft s') = unat (dataSizeLeft s) - c"
    and "dataSizeRead s' = dataSizeRead s + word_of_nat c"
    and "fpos s' = fpos s + c"
    and "c \<le> length pac - fpos s"
    and "c \<le> disk_free (wld s)"
    and "files (wld s') path = Some (cur @ take c (drop (fpos s) pac))"
    and "disk_free (wld s') = disk_free (wld s) - c"
    and "stdout (wld s') = stdout (wld s) @ [Progress (dataSizeRead s') n]"
    and "dirs (wld s') = dirs (wld s)"
proof -
  let ?cl = "if unat (dataSizeLeft s) > BUFFER_SIZE then word_of_nat BUFFER_SIZE else dataSizeLeft s"
  let ?buf = "fd_read pac (fpos s) (unat ?cl)"
  have u: "unat ?cl = c" unfolding c_def by (rule copyLength_unat)
  have w: "?cl = word_of_nat c" using u [symmetric] by simp
  have le: "?cl \<le> dataSizeLeft s" using u by (simp add: word_le_nat_alt c_def)
  obtain wb w' where fw: "fd_write path ?buf (wld s) = (wb, w')"
    by (cases "fd_write path ?buf (wld s)")
  have rd: "length ?buf = unat ?cl"
  proof (rule ccontr)
    assume "length ?buf \<noteq> unat ?cl"
    then have "copy_step pac path n s = Inl (Exit_failure ''Error while reading partition data'', wld s)"
      unfolding copy_step_def Let_def by (rule if_P)
    with assms(1) show False by simp
  qed
  have step: "copy_step pac path n s =
      (if wb \<noteq> unat ?cl then Inl (Exit_failure ''Error while writing partition data'', w')
       else Inr \<lparr>dataSizeLeft = dataSizeLeft s - ?cl, dataSizeRead = dataSizeRead s + ?cl,
                 fpos = fpos s + length ?buf,
                 wld = put (Progress (dataSizeRead s + ?cl) n) w'\<rparr>)"
    unfolding copy_step_def Let_def using rd fw by simp
  have wr: "wb = unat ?cl"
  proof (rule ccontr)
    assume "wb \<noteq> unat ?cl"
    with step assms(1) show False by simp
  qed
  have s': "s' = \<lparr>dataSizeLeft = dataSizeLeft s - ?cl, dataSizeRead = dataSizeRead s + ?cl,
                 fpos = fpos s + length ?buf,
                 wld = put (Progress (dataSizeRead s + ?cl) n) w'\<rparr>"
    using step wr assms(1) by simp
  have wb: "wb = min (length ?buf) (disk_free (wld s))"
    and w'f: "files w' = (files (wld s))(path \<mapsto> cur @ take wb ?buf)"
    and w'd: "disk_free w' = disk_free (wld s) - wb"
    and w's: "stdout w' = stdout (wld s)"
    and w'r: "dirs w' = dirs (wld s)"
    using fw by (auto simp: fd_write_def Let_def cur_def)
  have lb: "length ?buf = c" using rd u by simp
  have bc: "?buf = take c (drop (fpos s) pac)" using u by (simp add: fd_read_def)
  have wbc: "wb = c" using wr u by simp
  show "unat (dataSizeLeft s') = unat (dataSizeLeft s) - c"
    using s' le u by (simp add: unat_sub)
  show "dataSizeRead s' = dataSizeRead s + word_of_nat c" using s' w by simp
  show "fpos s' = fpos s + c" using s' lb by simp
  show "c \<le> length pac - fpos s" using lb bc by simp
  show "c \<le> disk_free (wld s)" using wb wbc lb by simp
  show "files (wld s') path = Some (cur @ take c (drop (fpos s) pac))"
    using s' w'f wbc bc by (simp add: put_def)
  show "disk_free (wld s') = disk_free (wld s) - c"
    using s' w'd wbc by (simp add: put_def)
  show "stdout (wld s') = stdout (wld s) @ [Progress (dataSizeRead s') n]"
    using s' w's by (simp add: put_def)
  show "dirs (wld s') = dirs (wld s)"
    using s' w'r by (simp add: put_def)
qed


lemma copy_step_Inl:
  assumes "copy_step pac path n s = Inl (a, w')"
  defines "c \<equiv> min (unat (dataSizeLeft s)) BUFFER_SIZE"
    and "cur \<equiv> (case files (wld s) path of None \<Rightarrow> [] | Some bs \<Rightarrow> bs)"
  shows "(a = Exit_failure ''Error while reading partition data'' \<and> w' = wld s
            \<and> length pac - fpos s < c)
       \<or> (a = Exit_failure ''Error while writing partition data''
            \<and> disk_free (wld s) < c
            \<and> files w' path = Some (cur @ take (disk_free (wld s)) (drop (fpos s) pac))
            \<and> stdout w' = stdout (wld s)
            \<and> c \<le> length pac - fpos s
            \<and> w' = (wld s)\<lparr>files := (files (wld s))
                          (path \<mapsto> cur @ take (disk_free (wld s)) (drop (fpos s) pac)),
                        disk_free := 0\<rparr>)"
proof -
  let ?cl = "if unat (dataSizeLeft s) > BUFFER_SIZE then word_of_nat BUFFER_SIZE else dataSizeLeft s"
  let ?buf = "fd_read pac (fpos s) (unat ?cl)"
  have u: "unat ?cl = c" unfolding c_def by (rule copyLength_unat)
  have bc: "?buf = take c (drop (fpos s) pac)" using u by (simp add: fd_read_def)
  obtain wb w1 where fw: "fd_write path ?buf (wld s) = (wb, w1)"
    by (cases "fd_write path ?buf (wld s)")
  show ?thesis
  proof (cases "length ?buf \<noteq> unat ?cl")
    case True
    then have "copy_step pac path n s = Inl (Exit_failure ''Error while reading partition data'', wld s)"
      unfolding copy_step_def Let_def by (rule if_P)
    with assms(1) have "a = Exit_failure ''Error while reading partition data''" "w' = wld s"
      by simp_all
    moreover have "length pac - fpos s < c" using True u bc by simp
    ultimately show ?thesis by simp
  next
    case False
    then have lb: "length ?buf = c" using u by simp
    have step: "copy_step pac path n s =
      (if wb \<noteq> unat ?cl then Inl (Exit_failure ''Error while writing partition data'', w1)
       else Inr \<lparr>dataSizeLeft = dataSizeLeft s - ?cl, dataSizeRead = dataSizeRead s + ?cl,
                 fpos = fpos s + length ?buf,
                 wld = put (Progress (dataSizeRead s + ?cl) n) w1\<rparr>)"
      unfolding copy_step_def Let_def using False fw by simp
    have ne: "wb \<noteq> unat ?cl"
    proof
      assume "wb = unat ?cl"
      with step assms(1) show False by simp
    qed
    with step assms(1) have a: "a = Exit_failure ''Error while writing partition data''" "w' = w1"
      by simp_all
    have wb: "wb = min (length ?buf) (disk_free (wld s))"
      and w'f: "files w1 = (files (wld s))(path \<mapsto> cur @ take wb ?buf)"
      and w's: "stdout w1 = stdout (wld s)"
      and w'w: "w1 = (wld s)\<lparr>files := (files (wld s))(path \<mapsto> cur @ take wb ?buf),
                            disk_free := disk_free (wld s) - wb\<rparr>"
      using fw by (auto simp: fd_write_def Let_def cur_def)
    from ne wb lb u have d: "disk_free (wld s) < c" by simp
    then have wbd: "wb = disk_free (wld s)" using wb lb by simp
    have tk: "take wb ?buf = take (disk_free (wld s)) (drop (fpos s) pac)"
      using wbd bc d by (simp add: min_absorb1)
    have av: "c \<le> length pac - fpos s" using lb bc by simp
    have "w1 = (wld s)\<lparr>files := (files (wld s))
                          (path \<mapsto> cur @ take (disk_free (wld s)) (drop (fpos s) pac)),
                        disk_free := 0\<rparr>"
      using w'w tk wbd by simp
    with a d w'f w's tk av show ?thesis by simp
  qed
qed

lemma copy_loop_done: "\<not> 0 < dataSizeLeft s \<Longrightarrow> copy_loop pac path n s = (Inr (), wld s)"
  by (simp add: copy_loop.simps)

lemma copy_loop_Inr:
  "0 < dataSizeLeft s \<Longrightarrow> copy_step pac path n s = Inr s' \<Longrightarrow>
   copy_loop pac path n s = copy_loop pac path n s'"
  by (subst copy_loop.simps) simp

lemma copy_loop_Inl:
  "0 < dataSizeLeft s \<Longrightarrow> copy_step pac path n s = Inl (a, w) \<Longrightarrow>
   copy_loop pac path n s = (Inl a, w)"
  by (subst copy_loop.simps) simp

text \<open>What the loop leaves in the destination file, and when it succeeds.\<close>

lemma copy_loop_files:
  assumes "files (wld s) path = Some cur"
    and "copy_loop pac path n s = (r, w')"
  shows "(r = Inr () \<longrightarrow>
            files w' path = Some (cur @ take (unat (dataSizeLeft s)) (drop (fpos s) pac))
            \<and> unat (dataSizeLeft s) \<le> length pac - fpos s
            \<and> unat (dataSizeLeft s) \<le> disk_free (wld s))
       \<and> (r \<noteq> Inr () \<longrightarrow>
            (r = Inl (Exit_failure ''Error while reading partition data'')
             \<or> r = Inl (Exit_failure ''Error while writing partition data''))
            \<and> (\<exists>m < unat (dataSizeLeft s).
                 files w' path = Some (cur @ take m (drop (fpos s) pac)))
            \<and> (length pac - fpos s < unat (dataSizeLeft s)
                 \<or> disk_free (wld s) < unat (dataSizeLeft s)))"
  using assms
proof (induction pac path n s arbitrary: cur rule: copy_loop.induct)
  case (1 pac path n s)
  let ?c = "min (unat (dataSizeLeft s)) BUFFER_SIZE"
  show ?case
  proof (cases "0 < dataSizeLeft s")
    case False
    then have "dataSizeLeft s = 0" using word_neq_0_conv [of "dataSizeLeft s"] by blast
    moreover from False "1.prems"(2) have "r = Inr ()" "w' = wld s"
      by (simp_all add: copy_loop_done)
    ultimately show ?thesis using "1.prems"(1) by simp
  next
    case True
    then have pos: "0 < unat (dataSizeLeft s)" by (simp add: word_less_nat_alt)
    then have cpos: "0 < ?c" by (simp add: BUFFER_SIZE_def)
    have cle: "?c \<le> unat (dataSizeLeft s)" by simp
    show ?thesis
    proof (cases "copy_step pac path n s")
      case (Inl p)
      obtain a w1 where p: "p = (a, w1)" by (cases p)
      from copy_loop_Inl [OF True Inl [unfolded p]] "1.prems"(2)
      have r: "r = Inl a" "w' = w1" by simp_all
      from copy_step_Inl [OF Inl [unfolded p]] "1.prems"(1)
      consider (rd) "a = Exit_failure ''Error while reading partition data''" "w1 = wld s"
          "length pac - fpos s < ?c"
        | (wr) "a = Exit_failure ''Error while writing partition data''"
          "disk_free (wld s) < ?c"
          "files w1 path = Some (cur @ take (disk_free (wld s)) (drop (fpos s) pac))"
        by auto
      then show ?thesis
      proof cases
        case rd
        have "files w' path = Some (cur @ take 0 (drop (fpos s) pac))"
          using rd r "1.prems"(1) by simp
        with pos have "\<exists>m < unat (dataSizeLeft s).
              files w' path = Some (cur @ take m (drop (fpos s) pac))" by blast
        with rd r cle show ?thesis by auto
      next
        case wr
        from wr cle have "disk_free (wld s) < unat (dataSizeLeft s)" by simp
        with wr r show ?thesis by auto
      qed
    next
      case (Inr s')
      note st0 = copy_step_Inr [OF Inr]
      have st6: "files (wld s') path = Some (cur @ take ?c (drop (fpos s) pac))"
        using st0(6) "1.prems"(1) by simp
      note st = st0(1-5) st6 st0(7-8)
      from copy_loop_Inr [OF True Inr] "1.prems"(2)
      have run: "copy_loop pac path n s' = (r, w')" by simp
      note IH = "1.IH" [OF True Inr st(6) run]
      have l': "unat (dataSizeLeft s') = unat (dataSizeLeft s) - ?c" by (rule st(1))
      have dd: "drop (fpos s') pac = drop ?c (drop (fpos s) pac)"
        using st(3) by (simp add: add.commute)
      have tk: "(cur @ take ?c (drop (fpos s) pac)) @ take m (drop (fpos s') pac)
            = cur @ take (?c + m) (drop (fpos s) pac)" for m
        unfolding dd take_add [of ?c m] by simp
      show ?thesis
      proof (cases "r = Inr ()")
        case True
        with IH have f: "files w' path = Some ((cur @ take ?c (drop (fpos s) pac))
              @ take (unat (dataSizeLeft s')) (drop (fpos s') pac))"
          and b1: "unat (dataSizeLeft s') \<le> length pac - fpos s'"
          and b2: "unat (dataSizeLeft s') \<le> disk_free (wld s')" by simp_all
        have "?c + unat (dataSizeLeft s') = unat (dataSizeLeft s)" using l' cle by simp
        with f tk have "files w' path = Some (cur @ take (unat (dataSizeLeft s)) (drop (fpos s) pac))"
          by simp
        moreover have "unat (dataSizeLeft s) \<le> length pac - fpos s"
          using b1 l' st(3) st(4) by linarith
        moreover have "unat (dataSizeLeft s) \<le> disk_free (wld s)"
          using b2 l' st(5) st(7) by linarith
        ultimately show ?thesis using True by simp
      next
        case False
        with IH obtain m where m: "m < unat (dataSizeLeft s')"
          "files w' path = Some ((cur @ take ?c (drop (fpos s) pac)) @ take m (drop (fpos s') pac))"
          and e: "r = Inl (Exit_failure ''Error while reading partition data'')
             \<or> r = Inl (Exit_failure ''Error while writing partition data'')"
          and sh: "length pac - fpos s' < unat (dataSizeLeft s')
                 \<or> disk_free (wld s') < unat (dataSizeLeft s')" by blast
        have "?c + m < unat (dataSizeLeft s)" using m(1) l' by linarith
        moreover have "files w' path = Some (cur @ take (?c + m) (drop (fpos s) pac))"
          using m(2) tk by simp
        ultimately have ex: "\<exists>m < unat (dataSizeLeft s).
              files w' path = Some (cur @ take m (drop (fpos s) pac))" by blast
        have "length pac - fpos s < unat (dataSizeLeft s)
                 \<or> disk_free (wld s) < unat (dataSizeLeft s)"
          using sh l' st(3) st(4) st(5) st(7) by linarith
        with ex e False show ?thesis by simp
      qed
    qed
  qed
qed

section \<open>The counters of the streaming loop\<close>

lemma copy_step_counters:
  assumes "copy_step pac path n s = Inr s'"
    and "unat (dataSizeRead s) + unat (dataSizeLeft s) = unat n"
  shows "unat (dataSizeRead s') + unat (dataSizeLeft s') = unat n"
    and "0 < dataSizeLeft s \<Longrightarrow> dataSizeRead s < dataSizeRead s'"
    and "dataSizeRead s' \<le> n"
proof -
  let ?c = "min (unat (dataSizeLeft s)) BUFFER_SIZE"
  note st = copy_step_Inr [OF assms(1)]
  have "unat (dataSizeRead s) + ?c \<le> unat n" using assms(2) by simp
  moreover have "unat n < 2 ^ 32" using unsigned_less [of n] by simp
  ultimately have lt: "unat (dataSizeRead s) + ?c < 2 ^ 32" by linarith
  then have c32: "?c < 2 ^ 32" by linarith
  have uc: "unat (word_of_nat ?c :: u32) = ?c"
    using c32 by (simp add: unat_of_nat)
  have r': "unat (dataSizeRead s') = unat (dataSizeRead s) + ?c"
    using st(2) lt uc by (simp add: unat_word_ariths)
  show "unat (dataSizeRead s') + unat (dataSizeLeft s') = unat n"
    using r' st(1) assms(2) by simp
  show "dataSizeRead s' \<le> n" using r' assms(2) by (simp add: word_le_nat_alt)
  show "dataSizeRead s < dataSizeRead s'" if "0 < dataSizeLeft s"
  proof -
    from that have "0 < unat (dataSizeLeft s)" by (simp add: word_less_nat_alt)
    then have "0 < ?c" by (simp add: BUFFER_SIZE_def)
    with r' show ?thesis by (simp add: word_less_nat_alt)
  qed
qed

lemma iterates_invariant:
  assumes "iterates pac path n s t"
    and "unat (dataSizeRead s) + unat (dataSizeLeft s) = unat n"
  shows "unat (dataSizeRead t) + unat (dataSizeLeft t) = unat n"
  using assms
proof (induction rule: iterates.induct)
  case iterates_start
  then show ?case .
next
  case (iterates_step t t')
  from copy_step_counters(1) [OF iterates_step(3) iterates_step.IH [OF iterates_step.prems]]
  show ?case .
qed

lemma copy_loop_reports:
  assumes "unat (dataSizeRead s) + unat (dataSizeLeft s) = unat n"
    and "copy_loop pac path n s = (r, w')"
  shows "\<exists>cs. stdout w' = stdout (wld s) @ map (\<lambda>c. Progress c n) cs
           \<and> (\<forall>c \<in> set cs. dataSizeRead s < c \<and> c \<le> n)
           \<and> sorted_wrt (<) cs
           \<and> (r = Inr () \<and> 0 < dataSizeLeft s \<longrightarrow> cs \<noteq> [] \<and> last cs = n)"
  using assms
proof (induction pac path n s rule: copy_loop.induct)
  case (1 pac path n s)
  show ?case
  proof (cases "0 < dataSizeLeft s")
    case False
    with "1.prems"(2) have "w' = wld s" by (simp add: copy_loop_done)
    with False have "stdout w' = stdout (wld s) @ map (\<lambda>c. Progress c n) []
           \<and> (\<forall>c \<in> set []. dataSizeRead s < c \<and> c \<le> n)
           \<and> sorted_wrt (<) ([] :: u32 list)
           \<and> (r = Inr () \<and> 0 < dataSizeLeft s \<longrightarrow> ([] :: u32 list) \<noteq> [] \<and> last [] = n)"
      by simp
    then show ?thesis by blast
  next
    case True
    show ?thesis
    proof (cases "copy_step pac path n s")
      case (Inl p)
      obtain a w1 where p: "p = (a, w1)" by (cases p)
      from copy_loop_Inl [OF True Inl [unfolded p]] "1.prems"(2)
      have r: "r = Inl a" "w' = w1" by simp_all
      from copy_step_Inl [OF Inl [unfolded p]] have "stdout w1 = stdout (wld s)" by auto
      with r have "stdout w' = stdout (wld s) @ map (\<lambda>c. Progress c n) []
           \<and> (\<forall>c \<in> set []. dataSizeRead s < c \<and> c \<le> n)
           \<and> sorted_wrt (<) ([] :: u32 list)
           \<and> (r = Inr () \<and> 0 < dataSizeLeft s \<longrightarrow> ([] :: u32 list) \<noteq> [] \<and> last [] = n)"
        by simp
      then show ?thesis by blast
    next
      case (Inr s')
      note cnt = copy_step_counters [OF Inr "1.prems"(1)]
      note st = copy_step_Inr [OF Inr]
      from copy_loop_Inr [OF True Inr] "1.prems"(2)
      have run: "copy_loop pac path n s' = (r, w')" by simp
      from "1.IH" [OF True Inr cnt(1) run] obtain cs where
        out: "stdout w' = stdout (wld s') @ map (\<lambda>c. Progress c n) cs"
        and bnd: "\<forall>c \<in> set cs. dataSizeRead s' < c \<and> c \<le> n"
        and srt: "sorted_wrt (<) cs"
        and lst: "r = Inr () \<and> 0 < dataSizeLeft s' \<longrightarrow> cs \<noteq> [] \<and> last cs = n"
        by blast
      let ?cs = "dataSizeRead s' # cs"
      have lt: "dataSizeRead s < dataSizeRead s'" by (rule cnt(2) [OF True])
      have 1: "stdout w' = stdout (wld s) @ map (\<lambda>c. Progress c n) ?cs"
        using out st(8) by simp
      have 2: "\<forall>c \<in> set ?cs. dataSizeRead s < c \<and> c \<le> n"
        using bnd lt cnt(3) by auto
      have 3: "sorted_wrt (<) ?cs" using srt bnd by simp
      have 4: "?cs \<noteq> [] \<and> last ?cs = n" if "r = Inr ()"
      proof (cases "0 < dataSizeLeft s'")
        case True
        with lst that show ?thesis by simp
      next
        case False
        then have z: "dataSizeLeft s' = 0" using word_neq_0_conv [of "dataSizeLeft s'"] by blast
        from False run have "w' = wld s'" by (simp add: copy_loop_done)
        with out have "cs = []" by simp
        moreover from cnt(1) z have "dataSizeRead s' = n" by (simp add: word_unat_eq_iff)
        ultimately show ?thesis by simp
      qed
      from 1 2 3 4 show ?thesis by blast
    qed
  qed
qed


lemma big_copy_loop:
  "copy_loop big_pac ''out/b'' 300000 big_start
   = (Inr (), \<lparr>files = [''out/b'' \<mapsto> replicate 262144 7 @ replicate 37856 7], dirs = {''out''},
               disk_free = 700000,
               stdout = [Progress 262144 300000, Progress 300000 300000]\<rparr>)"
  apply (subst copy_loop.simps)
  apply (simp add: copy_step_def BUFFER_SIZE_def fd_read_def fd_write_def put_def big_pac_def
      big_start_def)
  apply (subst copy_loop.simps)
  apply (simp add: copy_step_def BUFFER_SIZE_def fd_read_def fd_write_def put_def)
  apply (subst copy_loop.simps)
  apply simp
  done


text \<open>
  Claim C10. From the initial state of the streaming loop (\<^verbatim>\<open>dataSizeLeft\<close> the
  partition size, \<^verbatim>\<open>dataSizeRead\<close> zero), every state the loop passes through has
  \<^verbatim>\<open>dataSizeRead + dataSizeLeft = partitionSize\<close>, as numbers and not only modulo
  \<open>2 ^ 32\<close>. The progress reports the loop prints all carry the partition size as
  total, their completed counts are at most the total and strictly increasing, and
  when the loop of a non-empty partition ends without failure the last report has
  completed = total.
\<close>

theorem streaming_loop_invariant:
  assumes "dataSizeLeft s0 = partitionSize" and "dataSizeRead s0 = 0"
  shows "(\<forall>t. iterates pac path partitionSize s0 t \<longrightarrow>
            unat (dataSizeRead t) + unat (dataSizeLeft t) = unat partitionSize)
       \<and> (\<forall>r w'. copy_loop pac path partitionSize s0 = (r, w') \<longrightarrow>
            (\<exists>cs. stdout w' = stdout (wld s0) @ map (\<lambda>c. Progress c partitionSize) cs
               \<and> (\<forall>c \<in> set cs. c \<le> partitionSize)
               \<and> sorted_wrt (<) cs
               \<and> (r = Inr () \<and> partitionSize \<noteq> 0 \<longrightarrow> cs \<noteq> [] \<and> last cs = partitionSize)))"
proof -
  have init: "unat (dataSizeRead s0) + unat (dataSizeLeft s0) = unat partitionSize"
    using assms by simp
  have A: "unat (dataSizeRead t) + unat (dataSizeLeft t) = unat partitionSize"
    if "iterates pac path partitionSize s0 t" for t
    using that init by (rule iterates_invariant)
  have B: "\<exists>cs. stdout w' = stdout (wld s0) @ map (\<lambda>c. Progress c partitionSize) cs
               \<and> (\<forall>c \<in> set cs. c \<le> partitionSize)
               \<and> sorted_wrt (<) cs
               \<and> (r = Inr () \<and> partitionSize \<noteq> 0 \<longrightarrow> cs \<noteq> [] \<and> last cs = partitionSize)"
    if run: "copy_loop pac path partitionSize s0 = (r, w')" for r w'
  proof -
    from copy_loop_reports [OF init run] obtain cs where
      1: "stdout w' = stdout (wld s0) @ map (\<lambda>c. Progress c partitionSize) cs"
      and 2: "\<forall>c \<in> set cs. dataSizeRead s0 < c \<and> c \<le> partitionSize"
      and 3: "sorted_wrt (<) cs"
      and 4: "r = Inr () \<and> 0 < dataSizeLeft s0 \<longrightarrow> cs \<noteq> [] \<and> last cs = partitionSize"
      by blast
    from 2 have b2: "\<forall>c \<in> set cs. c \<le> partitionSize" by blast
    from 4 assms(1) have b4: "r = Inr () \<and> partitionSize \<noteq> 0 \<longrightarrow> cs \<noteq> [] \<and> last cs = partitionSize"
      using word_neq_0_conv [of partitionSize] by blast
    from 1 b2 3 b4 show ?thesis by blast
  qed
  show ?thesis
  proof (intro conjI allI impI)
    fix t assume "iterates pac path partitionSize s0 t"
    then show "unat (dataSizeRead t) + unat (dataSizeLeft t) = unat partitionSize" by (rule A)
  next
    fix r w' assume "copy_loop pac path partitionSize s0 = (r, w')"
    then show "\<exists>cs. stdout w' = stdout (wld s0) @ map (\<lambda>c. Progress c partitionSize) cs
               \<and> (\<forall>c \<in> set cs. c \<le> partitionSize)
               \<and> sorted_wrt (<) cs
               \<and> (r = Inr () \<and> partitionSize \<noteq> 0 \<longrightarrow> cs \<noteq> [] \<and> last cs = partitionSize)"
      by (rule B)
  qed
qed

theorem streaming_loop_invariant_witness:
  "dataSizeLeft big_start = 300000 \<and> dataSizeRead big_start = 0
   \<and> iterates big_pac ''out/b'' 300000 big_start big_start
   \<and> unat (dataSizeRead big_start) + unat (dataSizeLeft big_start) = unat (300000 :: u32)
   \<and> copy_loop big_pac ''out/b'' 300000 big_start
       = (Inr (), \<lparr>files = [''out/b'' \<mapsto> replicate 262144 7 @ replicate 37856 7], dirs = {''out''},
                   disk_free = 700000,
                   stdout = [Progress 262144 300000, Progress 300000 300000]\<rparr>)
   \<and> (\<exists>cs. [Progress 262144 300000, Progress 300000 300000]
              = stdout (wld big_start) @ map (\<lambda>c. Progress c 300000) cs
          \<and> sorted_wrt (<) cs \<and> cs \<noteq> [] \<and> last cs = 300000)"
proof -
  let ?w = "\<lparr>files = [''out/b'' \<mapsto> replicate 262144 7 @ replicate 37856 7], dirs = {''out''},
             disk_free = 700000, stdout = [Progress 262144 300000, Progress 300000 300000]\<rparr>"
  have a: "dataSizeLeft big_start = 300000" by (simp add: big_start_def)
  have b: "dataSizeRead big_start = 0" by (simp add: big_start_def)
  have c: "iterates big_pac ''out/b'' 300000 big_start big_start" by (rule iterates_start)
  note t = streaming_loop_invariant [OF a b, of big_pac "''out/b''"]
  from t c have d: "unat (dataSizeRead big_start) + unat (dataSizeLeft big_start)
      = unat (300000 :: u32)" by blast
  from t big_copy_loop have "\<exists>cs. stdout ?w
        = stdout (wld big_start) @ map (\<lambda>c. Progress c 300000) cs
      \<and> (\<forall>c \<in> set cs. c \<le> 300000) \<and> sorted_wrt (<) cs
      \<and> (Inr () = (Inr () :: abort + unit) \<and> (300000 :: u32) \<noteq> 0 \<longrightarrow> cs \<noteq> [] \<and> last cs = 300000)"
    by blast
  then have e: "\<exists>cs. [Progress 262144 300000, Progress 300000 300000]
              = stdout (wld big_start) @ map (\<lambda>c. Progress c 300000) cs
          \<and> sorted_wrt (<) cs \<and> cs \<noteq> [] \<and> last cs = 300000"
    by auto
  from a b c d big_copy_loop e show ?thesis by (intro conjI)
qed

section \<open>The passes of the streaming loop\<close>

lemma iterates_prepend:
  assumes "iterates pac path n s' t" and "0 < dataSizeLeft s"
    and "copy_step pac path n s = Inr s'"
  shows "iterates pac path n s t"
  using assms
proof (induction rule: iterates.induct)
  case iterates_start
  from iterates_step [OF iterates.iterates_start iterates_start(1) iterates_start(2)]
  show ?case .
next
  case (iterates_step t t')
  from iterates.iterates_step [OF iterates_step.IH [OF iterates_step.prems] iterates_step(2,3)]
  show ?case .
qed

text \<open>The loop ends in the state of its last pass: finished, or failed in that pass.\<close>

lemma copy_loop_ends:
  assumes "copy_loop pac path n s = (r, w')"
  shows "\<exists>t. iterates pac path n s t
          \<and> ((r = Inr () \<and> dataSizeLeft t = 0 \<and> w' = wld t)
             \<or> (\<exists>a. r = Inl a \<and> 0 < dataSizeLeft t \<and> copy_step pac path n t = Inl (a, w')))"
  using assms
proof (induction pac path n s rule: copy_loop.induct)
  case (1 pac path n s)
  show ?case
  proof (cases "0 < dataSizeLeft s")
    case False
    then have z: "dataSizeLeft s = 0" using word_neq_0_conv [of "dataSizeLeft s"] by blast
    from False "1.prems" have "r = Inr ()" "w' = wld s" by (simp_all add: copy_loop_done)
    with z iterates_start [of pac path n s] show ?thesis by blast
  next
    case True
    show ?thesis
    proof (cases "copy_step pac path n s")
      case (Inl p)
      obtain a w1 where p: "p = (a, w1)" by (cases p)
      from copy_loop_Inl [OF True Inl [unfolded p]] "1.prems"
      have "r = Inl a" "w' = w1" by simp_all
      with True Inl p iterates_start [of pac path n s] show ?thesis by blast
    next
      case (Inr s')
      from copy_loop_Inr [OF True Inr] "1.prems"
      have run: "copy_loop pac path n s' = (r, w')" by simp
      from "1.IH" [OF True Inr run] obtain t where
        it: "iterates pac path n s' t"
        and res: "(r = Inr () \<and> dataSizeLeft t = 0 \<and> w' = wld t)
             \<or> (\<exists>a. r = Inl a \<and> 0 < dataSizeLeft t \<and> copy_step pac path n t = Inl (a, w'))"
        by blast
      from iterates_prepend [OF it True Inr] res show ?thesis by blast
    qed
  qed
qed

lemma iterates_copy_loop:
  assumes "iterates pac path n s t"
  shows "copy_loop pac path n t = copy_loop pac path n s"
  using assms
proof (induction rule: iterates.induct)
  case iterates_start
  show ?case by simp
next
  case (iterates_step t t')
  from copy_loop_Inr [OF iterates_step(2,3)] iterates_step.IH show ?case by simp
qed

text \<open>What holds in every state the loop passes through from the state it starts in.\<close>

lemma iterates_from_start:
  assumes "iterates pac path n s0 t"
    and "dataSizeLeft s0 = n" and "dataSizeRead s0 = 0" and "fpos s0 = a0"
    and "files (wld s0) path = Some []" and "disk_free (wld s0) = d"
  shows "unat (dataSizeRead t) + unat (dataSizeLeft t) = unat n
       \<and> fpos t = a0 + unat (dataSizeRead t)
       \<and> files (wld t) path = Some (take (unat (dataSizeRead t)) (drop a0 pac))
       \<and> unat (dataSizeRead t) \<le> length pac - a0
       \<and> unat (dataSizeRead t) \<le> d
       \<and> disk_free (wld t) = d - unat (dataSizeRead t)
       \<and> dirs (wld t) = dirs (wld s0)
       \<and> (BUFFER_SIZE dvd unat (dataSizeRead t) \<or> dataSizeLeft t = 0)"
  using assms
proof (induction rule: iterates.induct)
  case (iterates_start s0)
  then show ?case by simp
next
  case (iterates_step s0 t t')
  let ?c = "min (unat (dataSizeLeft t)) BUFFER_SIZE"
  let ?rd = "unat (dataSizeRead t)"
  from iterates_step.IH [OF iterates_step.prems] have
    inv: "?rd + unat (dataSizeLeft t) = unat n"
    and fp: "fpos t = a0 + ?rd"
    and fl: "files (wld t) path = Some (take ?rd (drop a0 pac))"
    and av: "?rd \<le> length pac - a0"
    and dk: "?rd \<le> d" "disk_free (wld t) = d - ?rd"
    and dr: "dirs (wld t) = dirs (wld s0)"
    and dv: "BUFFER_SIZE dvd ?rd \<or> dataSizeLeft t = 0"
    by simp_all
  note st = copy_step_Inr [OF iterates_step(3)]
  note cnt = copy_step_counters [OF iterates_step(3) inv]
  have pos: "0 < unat (dataSizeLeft t)" using iterates_step(2) by (simp add: word_less_nat_alt)
  have cle: "?c \<le> unat (dataSizeLeft t)" by simp
  have rd': "unat (dataSizeRead t') = ?rd + ?c" using cnt(1) st(1) inv cle by linarith
  have 1: "unat (dataSizeRead t') + unat (dataSizeLeft t') = unat n" by (rule cnt(1))
  have 2: "fpos t' = a0 + unat (dataSizeRead t')" using st(3) fp rd' by simp
  have dd: "drop (fpos t) pac = drop ?rd (drop a0 pac)" using fp by (simp add: add.commute)
  have 3: "files (wld t') path = Some (take (unat (dataSizeRead t')) (drop a0 pac))"
    using st(6) fl unfolding dd rd' take_add [of ?rd ?c] by simp
  have 4: "unat (dataSizeRead t') \<le> length pac - a0" using st(4) fp rd' av by linarith
  have 5: "unat (dataSizeRead t') \<le> d" using st(5) dk rd' by linarith
  have 6: "disk_free (wld t') = d - unat (dataSizeRead t')" using st(7) dk rd' by simp
  have 7: "dirs (wld t') = dirs (wld s0)" using st(9) dr by simp
  have 8: "BUFFER_SIZE dvd unat (dataSizeRead t') \<or> dataSizeLeft t' = 0"
  proof (cases "BUFFER_SIZE \<le> unat (dataSizeLeft t)")
    case True
    then have "?c = BUFFER_SIZE" by simp
    moreover from dv pos have "BUFFER_SIZE dvd ?rd" by auto
    ultimately show ?thesis using rd' by simp
  next
    case False
    then have "?c = unat (dataSizeLeft t)" by simp
    with st(1) have "unat (dataSizeLeft t') = 0" by simp
    then show ?thesis by (simp add: unat_eq_0)
  qed
  from 1 2 3 4 5 6 7 8 show ?case by blast
qed

section \<open>Properties of the partition record reader\<close>

lemma le32_Some_length: "le32 bs = Some x \<Longrightarrow> length bs = 4"
  by (induction bs rule: le32.induct) simp_all

lemma readPartitionHeader_Inr:
  assumes "readPartitionHeader e pac curPos = Inr (hdr, next)"
  shows "\<exists>L. le32 (fd_read pac (unat curPos) 4) = Some L \<and> next = curPos + L
           \<and> hdr = fd_read pac (unat curPos) (unat L) \<and> length hdr = unat L
           \<and> unat curPos + unat L \<le> length pac \<and> malloc_ok e (unat L)"
proof -
  obtain L where L: "le32 (fd_read pac (unat curPos) 4) = Some L"
    using assms by (auto simp: readPartitionHeader_def split: option.splits)
  from le32_Some_length [OF L] have four: "unat curPos + 4 \<le> length pac"
    by (simp add: fd_read_def)
  from assms L have m: "malloc_ok e (unat L)"
    and len: "length (fd_read pac (unat curPos) (unat L)) = unat L"
    and res: "hdr = fd_read pac (unat curPos) (unat L)" "next = curPos + L"
    by (auto simp: readPartitionHeader_def Let_def split: if_splits)
  from len four have "unat curPos + unat L \<le> length pac"
    by (simp add: fd_read_def)
  with L m len res show ?thesis by auto
qed

lemma read_headers_done: "\<not> i < n \<Longrightarrow> read_headers e allocated pac n i curPos hs w = (Inr hs, w)"
  by (simp add: read_headers.simps)

lemma read_headers_step:
  assumes "i < n" and "read_headers e allocated pac n i curPos hs w = (Inr res, w')"
  shows "\<exists>h next w1. readPartitionHeader e pac curPos = Inr (h, next)
           \<and> read_headers e allocated pac n (i + 1) next (hs @ [h]) w1 = (Inr res, w')"
  using assms
  by (subst (asm) read_headers.simps)
     (auto split: sum.splits option.splits prod.splits if_splits)

lemma read_headers_two:
  assumes "read_headers e allocated pac 2 0 start [] w = (Inr hs, w')"
  shows "\<exists>L1 h1 h2 next. le32 (fd_read pac (unat start) 4) = Some L1
           \<and> readPartitionHeader e pac start = Inr (h1, start + L1)
           \<and> readPartitionHeader e pac (start + L1) = Inr (h2, next)
           \<and> hs = [h1, h2]"
proof -
  from read_headers_step [OF _ assms] obtain h1 n1 w1 where
    r1: "readPartitionHeader e pac start = Inr (h1, n1)"
    and s1: "read_headers e allocated pac 2 1 n1 [h1] w1 = (Inr hs, w')" by auto
  from read_headers_step [OF _ s1] obtain h2 n2 w2 where
    r2: "readPartitionHeader e pac n1 = Inr (h2, n2)"
    and s2: "read_headers e allocated pac 2 2 n2 [h1, h2] w2 = (Inr hs, w')" by auto
  from s2 have hs: "hs = [h1, h2]" by (simp add: read_headers_done)
  from readPartitionHeader_Inr [OF r1] obtain L1 where
    "le32 (fd_read pac (unat start) 4) = Some L1" "n1 = start + L1" by auto
  with r1 r2 hs show ?thesis by auto
qed

text \<open>
  Claim C2. Wherever the partition record reader succeeds, the offset it returns is the
  offset it was given plus the record length \<open>L\<close> found in the 4-byte prefix at that
  offset, and the record it returns is the \<open>L\<close> bytes from that offset. The sum is the
  \<^verbatim>\<open>uint32_t\<close> sum of the source; for a container below 4 GiB it is the sum of the two
  numbers. Hence, when the driver's record walk runs with \<open>partitionCount = 2\<close> from
  \<open>start\<close> and succeeds, the second record is the one the reader returns at
  \<open>start + L1\<close>, with \<open>L1\<close> the prefix of the first record, whatever its value.
\<close>

theorem reader_next_offset:
  "(readPartitionHeader e pac curPos = Inr (hdr, next) \<longrightarrow>
      (\<exists>L. le32 (fd_read pac (unat curPos) 4) = Some L \<and> next = curPos + L
           \<and> hdr = fd_read pac (unat curPos) (unat L)
           \<and> (length pac < 2 ^ 32 \<longrightarrow> unat next = unat curPos + unat L)))
   \<and> (read_headers e allocated pac 2 0 start [] w = (Inr hs, w') \<longrightarrow>
      (\<exists>L1 h1 h2 next2. le32 (fd_read pac (unat start) 4) = Some L1
           \<and> readPartitionHeader e pac start = Inr (h1, start + L1)
           \<and> readPartitionHeader e pac (start + L1) = Inr (h2, next2)
           \<and> hs = [h1, h2]))"
proof (intro conjI impI)
  assume a: "readPartitionHeader e pac curPos = Inr (hdr, next)"
  from readPartitionHeader_Inr [OF a] obtain L where
    L: "le32 (fd_read pac (unat curPos) 4) = Some L" "next = curPos + L"
    "hdr = fd_read pac (unat curPos) (unat L)" "unat curPos + unat L \<le> length pac"
    by auto
  have "unat next = unat curPos + unat L" if "length pac < 2 ^ 32"
  proof -
    from that L(4) have "unat curPos + unat L < 2 ^ 32" by simp
    then show ?thesis using L(2) by (simp add: unat_word_ariths)
  qed
  with L show "\<exists>L. le32 (fd_read pac (unat curPos) 4) = Some L \<and> next = curPos + L
           \<and> hdr = fd_read pac (unat curPos) (unat L)
           \<and> (length pac < 2 ^ 32 \<longrightarrow> unat next = unat curPos + unat L)"
    by auto
next
  assume "read_headers e allocated pac 2 0 start [] w = (Inr hs, w')"
  then show "\<exists>L1 h1 h2 next2. le32 (fd_read pac (unat start) 4) = Some L1
           \<and> readPartitionHeader e pac start = Inr (h1, start + L1)
           \<and> readPartitionHeader e pac (start + L1) = Inr (h2, next2)
           \<and> hs = [h1, h2]"
    by (rule read_headers_two)
qed

theorem reader_next_offset_witness:
  "read_headers lp64 16 two_records 2 0 0 [] no_files =
       (Inr [sample_record [0, 0, 0, 0] [0, 0, 0, 0], sample_record [5, 0, 0, 0] [0, 0, 0, 0]],
        put (Partition_info ''a'' ''b'' 5) (put (Partition_info ''a'' ''b'' 0) no_files))
   \<and> (\<exists>L1 h1 h2 next2. le32 (fd_read two_records (unat (0 :: u32)) 4) = Some L1
         \<and> readPartitionHeader lp64 two_records 0 = Inr (h1, 0 + L1)
         \<and> readPartitionHeader lp64 two_records (0 + L1) = Inr (h2, next2)
         \<and> [sample_record [0, 0, 0, 0] [0, 0, 0, 0], sample_record [5, 0, 0, 0] [0, 0, 0, 0]]
             = [h1, h2])"
proof -
  let ?hs = "[sample_record [0, 0, 0, 0] [0, 0, 0, 0], sample_record [5, 0, 0, 0] [0, 0, 0, 0]]"
  let ?w = "put (Partition_info ''a'' ''b'' 5) (put (Partition_info ''a'' ''b'' 0) no_files)"
  have a: "read_headers lp64 16 two_records 2 0 0 [] no_files = (Inr ?hs, ?w)"
    by (rule read_headers_two_records)
  have "read_headers lp64 16 two_records 2 0 0 [] no_files = (Inr ?hs, ?w) \<longrightarrow>
      (\<exists>L1 h1 h2 next2. le32 (fd_read two_records (unat (0 :: u32)) 4) = Some L1
         \<and> readPartitionHeader lp64 two_records 0 = Inr (h1, 0 + L1)
         \<and> readPartitionHeader lp64 two_records (0 + L1) = Inr (h2, next2)
         \<and> ?hs = [h1, h2])"
    by (rule conjunct2 [OF reader_next_offset [of lp64 two_records 0 "[]" 0 16 0 no_files ?hs ?w]])
  then have "\<exists>L1 h1 h2 next2. le32 (fd_read two_records (unat (0 :: u32)) 4) = Some L1
         \<and> readPartitionHeader lp64 two_records 0 = Inr (h1, 0 + L1)
         \<and> readPartitionHeader lp64 two_records (0 + L1) = Inr (h2, next2)
         \<and> ?hs = [h1, h2]"
    using a by (rule mp)
  with a show ?thesis by (rule conjI)
qed

text \<open>
  Claim C4, as stated, fails: a record whose length prefix is 4, far below the 1568
  bytes of the fixed fields, is read without any failure; the reader returns the four
  bytes it read and the next offset 4.
\<close>

theorem short_record_is_accepted:
  "readPartitionHeader lp64 [4, 0, 0, 0] 0 = Inr ([4, 0, 0, 0], 4)
   \<and> length [4, 0, 0, 0 :: byte] < sizeof_PartitionHeader"
  by (simp add: readPartitionHeader_def fd_read_def lp64_def sizeof_PartitionHeader_def)

text \<open>
  Claim C4, amended. The reader compares the record length with nothing but the bytes
  available: for a record whose length \<open>L\<close> is below the size of the fixed fields it
  fails exactly when the allocation of \<open>L\<close> bytes fails or fewer than \<open>L\<close> bytes are
  left at the offset, and otherwise succeeds with a buffer of exactly \<open>L\<close> bytes, shorter
  than the fixed layout, and the next offset \<open>curPos + L\<close>.
\<close>

theorem short_record_reader_result:
  assumes "le32 (fd_read pac (unat curPos) 4) = Some L"
    and "unat L < sizeof_PartitionHeader"
  shows "readPartitionHeader e pac curPos =
           (if \<not> malloc_ok e (unat L) then Inl (Exit_failure ''Memory allocation failed'')
            else if length pac < unat curPos + unat L
                 then Inl (Exit_failure ''Error while reading partition header'')
                 else Inr (fd_read pac (unat curPos) (unat L), curPos + L))
         \<and> length (fd_read pac (unat curPos) (unat L)) < sizeof_PartitionHeader"
proof -
  from le32_Some_length [OF assms(1)] have "unat curPos + 4 \<le> length pac"
    by (simp add: fd_read_def)
  then have "length (fd_read pac (unat curPos) (unat L)) = unat L
      \<longleftrightarrow> \<not> length pac < unat curPos + unat L"
    by (auto simp: fd_read_def)
  moreover have "length (fd_read pac (unat curPos) (unat L)) \<le> unat L"
    by (simp add: fd_read_def)
  ultimately show ?thesis
    using assms by (simp add: readPartitionHeader_def Let_def)
qed

theorem short_record_reader_result_witness:
  "le32 (fd_read [4, 0, 0, 0] (unat (0 :: u32)) 4) = Some 4
   \<and> unat (4 :: u32) < sizeof_PartitionHeader
   \<and> readPartitionHeader lp64 [4, 0, 0, 0] 0 = Inr (fd_read [4, 0, 0, 0] 0 4, 4)
   \<and> length (fd_read [4, 0, 0, 0 :: byte] 0 4) = 4"
proof -
  have a: "le32 (fd_read [4, 0, 0, 0] (unat (0 :: u32)) 4) = Some 4"
    by (simp add: fd_read_def)
  have b: "unat (4 :: u32) < sizeof_PartitionHeader"
    by (simp add: sizeof_PartitionHeader_def)
  from short_record_reader_result [OF a b, of lp64] show ?thesis
    using a b by (simp add: lp64_def fd_read_def)
qed

section \<open>Properties of the partition extractor\<close>

lemma remove_file_disk_free: "remove_file e p w = Some w1 \<Longrightarrow> disk_free w1 = disk_free w"
  by (auto simp: remove_file_def split: if_splits)

lemma open_new_Some:
  assumes "open_new e p w1 = Some w2"
  shows "files w2 p = Some []" and "disk_free w2 = disk_free w1" and "dirs w2 = dirs w1"
    and "stdout w2 = stdout w1" and "dir_part p = [] \<or> dir_part p \<in> dirs w1"
  using assms by (auto simp: open_new_def split: if_splits)

lemma stream_start_simps:
  "dataSizeLeft (stream_start p n addr w2) = n"
  "dataSizeRead (stream_start p n addr w2) = 0"
  "fpos (stream_start p n addr w2) = unat addr"
  "files (wld (stream_start p n addr w2)) = files w2"
  "disk_free (wld (stream_start p n addr w2)) = disk_free w2"
  "stdout (wld (stream_start p n addr w2)) = stdout w2 @ [Extracting p]"
  by (simp_all add: stream_start_def put_def)

lemma extractPartition_stream:
  assumes "ph_partitionSize h = Some n" and "n \<noteq> 0"
    and "ph_partitionAddrInPac h = Some addr"
    and "malloc_ok e BUFFER_SIZE"
    and "call_getString 512 (ph_fileName h) = Inr fileName"
    and "remove_file e (output_file out fileName) w = Some w1"
    and "open_new e (output_file out fileName) w1 = Some w2"
  shows "extractPartition e pac h out w =
     (case copy_loop pac (output_file out fileName) n
             (stream_start (output_file out fileName) n addr w2) of
        (Inl a, w3) \<Rightarrow> (Inl a, w3)
      | (Inr u, w3) \<Rightarrow> (Inr (), put Newline w3))"
  using assms by (simp add: extractPartition_def Let_def)

lemma extractPartition_Inr:
  assumes "ph_partitionSize h = Some n" and "n \<noteq> 0"
    and "extractPartition e pac h out w = (Inr (), w')"
  shows "\<exists>addr fileName w1 w2 w3. ph_partitionAddrInPac h = Some addr
           \<and> call_getString 512 (ph_fileName h) = Inr fileName
           \<and> remove_file e (output_file out fileName) w = Some w1
           \<and> open_new e (output_file out fileName) w1 = Some w2
           \<and> copy_loop pac (output_file out fileName) n
                (stream_start (output_file out fileName) n addr w2) = (Inr (), w3)
           \<and> w' = put Newline w3"
proof -
  from assms obtain addr where addr: "ph_partitionAddrInPac h = Some addr"
    by (cases "ph_partitionAddrInPac h") (simp_all add: extractPartition_def)
  from assms addr have m: "malloc_ok e BUFFER_SIZE"
    by (cases "malloc_ok e BUFFER_SIZE") (simp_all add: extractPartition_def)
  from assms addr m obtain fileName where fn: "call_getString 512 (ph_fileName h) = Inr fileName"
    by (cases "call_getString 512 (ph_fileName h)") (simp_all add: extractPartition_def)
  let ?p = "output_file out fileName"
  from assms addr m fn obtain w1 where rm: "remove_file e ?p w = Some w1"
    by (cases "remove_file e ?p w") (simp_all add: extractPartition_def Let_def)
  from assms addr m fn rm obtain w2 where cr: "open_new e ?p w1 = Some w2"
    by (cases "open_new e ?p w1") (simp_all add: extractPartition_def Let_def)
  let ?s0 = "stream_start ?p n addr w2"
  note eq = extractPartition_stream [OF assms(1,2) addr m fn rm cr, of pac]
  obtain r w3 where cl: "copy_loop pac ?p n ?s0 = (r, w3)" by (cases "copy_loop pac ?p n ?s0")
  from eq cl assms(3) have "r = Inr () \<and> w' = put Newline w3"
    by (cases r) simp_all
  with addr fn rm cr cl show ?thesis by blast
qed

text \<open>
  In a run of the loop that ends without failure, every pass succeeds: from each state
  it passes through with bytes left, the body copies the next
  \<open>min dataSizeLeft BUFFER_SIZE\<close> bytes of the payload to the end of the file.
\<close>

lemma successful_run_passes:
  assumes run: "copy_loop pac path n s0 = (Inr (), w3)"
    and s0: "dataSizeLeft s0 = n" "dataSizeRead s0 = 0" "fpos s0 = a0"
      "files (wld s0) path = Some []"
    and it: "iterates pac path n s0 t"
  defines "payload \<equiv> take (unat n) (drop a0 pac)"
  shows "files (wld t) path = Some (take (unat (dataSizeRead t)) payload)"
    and "unat (dataSizeRead t) + unat (dataSizeLeft t) = unat n"
    and "0 < dataSizeLeft t \<Longrightarrow>
          \<exists>t'. copy_step pac path n t = Inr t' \<and> iterates pac path n s0 t'
             \<and> unat (dataSizeRead t')
                 = unat (dataSizeRead t) + min (unat (dataSizeLeft t)) BUFFER_SIZE
             \<and> files (wld t') path
                 = Some (take (unat (dataSizeRead t)) payload
                         @ take (min (unat (dataSizeLeft t)) BUFFER_SIZE)
                             (drop (unat (dataSizeRead t)) payload))
             \<and> length (take (min (unat (dataSizeLeft t)) BUFFER_SIZE)
                             (drop (unat (dataSizeRead t)) payload))
                 = min (unat (dataSizeLeft t)) BUFFER_SIZE
             \<and> stdout (wld t') = stdout (wld t) @ [Progress (dataSizeRead t') n]"
proof -
  let ?rd = "unat (dataSizeRead t)"
  let ?c = "min (unat (dataSizeLeft t)) BUFFER_SIZE"
  let ?xs = "drop a0 pac"
  note inv = iterates_from_start [OF it s0 refl]
  from inv have sum: "?rd + unat (dataSizeLeft t) = unat n"
    and fl: "files (wld t) path = Some (take ?rd ?xs)" by simp_all
  have tk: "take k payload = take k ?xs" if "k \<le> unat n" for k
    using that by (simp add: payload_def min_absorb1)
  from sum have "?rd \<le> unat n" by simp
  with fl tk show "files (wld t) path = Some (take ?rd payload)" by simp
  show "?rd + unat (dataSizeLeft t) = unat n" by (rule sum)
  show "\<exists>t'. copy_step pac path n t = Inr t' \<and> iterates pac path n s0 t'
             \<and> unat (dataSizeRead t') = ?rd + ?c
             \<and> files (wld t') path = Some (take ?rd payload @ take ?c (drop ?rd payload))
             \<and> length (take ?c (drop ?rd payload)) = ?c
             \<and> stdout (wld t') = stdout (wld t) @ [Progress (dataSizeRead t') n]"
    if pos: "0 < dataSizeLeft t"
  proof (cases "copy_step pac path n t")
    case (Inl p)
    obtain a w1 where p: "p = (a, w1)" by (cases p)
    from copy_loop_Inl [OF pos Inl [unfolded p]] iterates_copy_loop [OF it] run
    show ?thesis by simp
  next
    case (Inr t')
    have it': "iterates pac path n s0 t'" by (rule iterates_step [OF it pos Inr])
    note inv' = iterates_from_start [OF it' s0 refl]
    note st = copy_step_Inr [OF Inr]
    note cnt = copy_step_counters [OF Inr sum]
    have cle: "?c \<le> unat (dataSizeLeft t)" by simp
    have rd': "unat (dataSizeRead t') = ?rd + ?c" using cnt(1) st(1) sum cle by linarith
    then have le': "?rd + ?c \<le> unat n" using sum cle by linarith
    from inv' have "files (wld t') path = Some (take (?rd + ?c) ?xs)"
      and av: "?rd + ?c \<le> length pac - a0" using rd' by simp_all
    then have f': "files (wld t') path = Some (take (?rd + ?c) payload)" using tk le' by simp
    have "take (?rd + ?c) payload = take ?rd payload @ take ?c (drop ?rd payload)"
      by (rule take_add)
    with f' have 1: "files (wld t') path = Some (take ?rd payload @ take ?c (drop ?rd payload))"
      by simp
    have "?rd + ?c \<le> length payload" using av le' by (simp add: payload_def)
    then have 2: "length (take ?c (drop ?rd payload)) = ?c" by simp
    from Inr it' rd' 1 2 st(8) show ?thesis by blast
  qed
qed


text \<open>
  Claim C7. A record whose \<^verbatim>\<open>partitionSize\<close> is 0 is skipped: the extractor returns
  at once, without failure, and leaves the world as it was; no file is removed,
  created or written and nothing is printed.
\<close>

theorem empty_partition_is_skipped:
  assumes "ph_partitionSize partHeader = Some 0"
  shows "extractPartition e pac partHeader outputPath w = (Inr (), w)"
  using assms by (simp add: extractPartition_def)

theorem empty_partition_is_skipped_witness:
  "ph_partitionSize (sample_record [0, 0, 0, 0] [0, 0, 0, 0]) = Some 0
   \<and> extractPartition lp64 [] (sample_record [0, 0, 0, 0] [0, 0, 0, 0]) ''out'' no_files
       = (Inr (), no_files)"
proof -
  have a: "ph_partitionSize (sample_record [0, 0, 0, 0] [0, 0, 0, 0]) = Some 0"
    by (simp add: sample_partitionSize)
  from a empty_partition_is_skipped [OF a] show ?thesis by simp
qed

text \<open>
  Claim C3. When the extraction of a record with a non-zero \<^verbatim>\<open>partitionSize\<close>
  succeeds, the output file, named by the decoded file name under the output path,
  holds exactly the \<^verbatim>\<open>partitionSize\<close> bytes of the container that start at
  \<^verbatim>\<open>partitionAddrInPac\<close>. The copy is the run of the loop from the state in which the
  extractor enters it, after the old file is removed and the new one opened: the world
  returned is the world of the last state of that run, where \<^verbatim>\<open>dataSizeLeft\<close> is 0, with
  the final newline printed. In every state of the run the file holds the first
  \<^verbatim>\<open>dataSizeRead\<close> bytes of the payload, and from every state with bytes left the next
  pass succeeds, appends the next \<open>min dataSizeLeft BUFFER_SIZE\<close> bytes of the payload
  (at most 256 KiB), advances \<^verbatim>\<open>dataSizeRead\<close> by as much and reports it. The same
  holds of any single pass of the loop body from any state.
\<close>

theorem extracted_file_is_payload:
  assumes "ph_partitionSize partHeader = Some partitionSize" and "partitionSize \<noteq> 0"
    and "extractPartition e pac partHeader outputPath w = (Inr (), w')"
  shows "(\<exists>addr fileName w1 w2 final.
            ph_partitionAddrInPac partHeader = Some addr
            \<and> call_getString 512 (ph_fileName partHeader) = Inr fileName
            \<and> files w' (take 767 (outputPath @ ''/'' @ fileName))
                 = Some (take (unat partitionSize) (drop (unat addr) pac))
            \<and> length (take (unat partitionSize) (drop (unat addr) pac)) = unat partitionSize
            \<and> remove_file e (output_file outputPath fileName) w = Some w1
            \<and> open_new e (output_file outputPath fileName) w1 = Some w2
            \<and> iterates pac (output_file outputPath fileName) partitionSize
                 (stream_start (output_file outputPath fileName) partitionSize addr w2) final
            \<and> dataSizeLeft final = 0
            \<and> w' = put Newline (wld final)
            \<and> (\<forall>t. iterates pac (output_file outputPath fileName) partitionSize
                     (stream_start (output_file outputPath fileName) partitionSize addr w2) t
                  \<longrightarrow>
                  files (wld t) (output_file outputPath fileName)
                    = Some (take (unat (dataSizeRead t))
                              (take (unat partitionSize) (drop (unat addr) pac)))
                  \<and> unat (dataSizeRead t) + unat (dataSizeLeft t) = unat partitionSize
                  \<and> (0 < dataSizeLeft t \<longrightarrow>
                       (\<exists>t'. copy_step pac (output_file outputPath fileName) partitionSize t
                                = Inr t'
                          \<and> iterates pac (output_file outputPath fileName) partitionSize
                               (stream_start (output_file outputPath fileName) partitionSize
                                  addr w2) t'
                          \<and> unat (dataSizeRead t')
                               = unat (dataSizeRead t)
                                 + min (unat (dataSizeLeft t)) BUFFER_SIZE
                          \<and> files (wld t') (output_file outputPath fileName)
                               = Some (take (unat (dataSizeRead t))
                                         (take (unat partitionSize) (drop (unat addr) pac))
                                       @ take (min (unat (dataSizeLeft t)) BUFFER_SIZE)
                                           (drop (unat (dataSizeRead t))
                                              (take (unat partitionSize)
                                                 (drop (unat addr) pac))))
                          \<and> length (take (min (unat (dataSizeLeft t)) BUFFER_SIZE)
                                           (drop (unat (dataSizeRead t))
                                              (take (unat partitionSize)
                                                 (drop (unat addr) pac))))
                               = min (unat (dataSizeLeft t)) BUFFER_SIZE
                          \<and> stdout (wld t')
                               = stdout (wld t) @ [Progress (dataSizeRead t') partitionSize]))))
       \<and> (\<forall>path s s' cur. copy_step pac path partitionSize s = Inr s'
              \<and> files (wld s) path = Some cur \<longrightarrow>
            files (wld s') path
               = Some (cur @ take (min (unat (dataSizeLeft s)) BUFFER_SIZE) (drop (fpos s) pac))
            \<and> length (take (min (unat (dataSizeLeft s)) BUFFER_SIZE) (drop (fpos s) pac))
               = min (unat (dataSizeLeft s)) BUFFER_SIZE
            \<and> unat (dataSizeLeft s')
               = unat (dataSizeLeft s) - min (unat (dataSizeLeft s)) BUFFER_SIZE)"
proof (rule conjI)
  from extractPartition_Inr [OF assms] obtain addr fileName w1 w2 w3 where
    addr: "ph_partitionAddrInPac partHeader = Some addr"
    and fn: "call_getString 512 (ph_fileName partHeader) = Inr fileName"
    and rm: "remove_file e (output_file outputPath fileName) w = Some w1"
    and op: "open_new e (output_file outputPath fileName) w1 = Some w2"
    and cl: "copy_loop pac (output_file outputPath fileName) partitionSize
                (stream_start (output_file outputPath fileName) partitionSize addr w2)
               = (Inr (), w3)"
    and w': "w' = put Newline w3" by blast
  let ?p = "output_file outputPath fileName"
  let ?s0 = "stream_start ?p partitionSize addr w2"
  let ?payload = "take (unat partitionSize) (drop (unat addr) pac)"
  have p: "?p = take 767 (outputPath @ ''/'' @ fileName)" by (simp add: output_file_def)
  have s0: "dataSizeLeft ?s0 = partitionSize" "dataSizeRead ?s0 = 0" "fpos ?s0 = unat addr"
    "files (wld ?s0) ?p = Some []"
    using open_new_Some(1) [OF op] by (simp_all add: stream_start_simps)
  from copy_loop_files [OF s0(4) cl]
  have f: "files w3 ?p = Some ?payload"
    and b: "unat partitionSize \<le> length pac - unat addr"
    by (simp_all add: stream_start_simps)
  from f w' have 1: "files w' (take 767 (outputPath @ ''/'' @ fileName)) = Some ?payload"
    by (simp add: put_def p)
  from b have 2: "length ?payload = unat partitionSize" by simp
  from copy_loop_ends [OF cl] obtain final where
    fin: "iterates pac ?p partitionSize ?s0 final" "dataSizeLeft final = 0" "w3 = wld final"
    by auto
  have 3: "w' = put Newline (wld final)" using w' fin(3) by simp
  have 4: "files (wld t) ?p = Some (take (unat (dataSizeRead t)) ?payload)
        \<and> unat (dataSizeRead t) + unat (dataSizeLeft t) = unat partitionSize
        \<and> (0 < dataSizeLeft t \<longrightarrow>
             (\<exists>t'. copy_step pac ?p partitionSize t = Inr t'
                \<and> iterates pac ?p partitionSize ?s0 t'
                \<and> unat (dataSizeRead t')
                     = unat (dataSizeRead t) + min (unat (dataSizeLeft t)) BUFFER_SIZE
                \<and> files (wld t') ?p
                     = Some (take (unat (dataSizeRead t)) ?payload
                             @ take (min (unat (dataSizeLeft t)) BUFFER_SIZE)
                                 (drop (unat (dataSizeRead t)) ?payload))
                \<and> length (take (min (unat (dataSizeLeft t)) BUFFER_SIZE)
                                 (drop (unat (dataSizeRead t)) ?payload))
                     = min (unat (dataSizeLeft t)) BUFFER_SIZE
                \<and> stdout (wld t') = stdout (wld t) @ [Progress (dataSizeRead t') partitionSize]))"
    if it: "iterates pac ?p partitionSize ?s0 t" for t
    using successful_run_passes [OF cl s0 it] by blast
  from addr fn 1 2 rm op fin(1,2) 3 4
  show "\<exists>addr fileName w1 w2 final.
            ph_partitionAddrInPac partHeader = Some addr
            \<and> call_getString 512 (ph_fileName partHeader) = Inr fileName
            \<and> files w' (take 767 (outputPath @ ''/'' @ fileName))
                 = Some (take (unat partitionSize) (drop (unat addr) pac))
            \<and> length (take (unat partitionSize) (drop (unat addr) pac)) = unat partitionSize
            \<and> remove_file e (output_file outputPath fileName) w = Some w1
            \<and> open_new e (output_file outputPath fileName) w1 = Some w2
            \<and> iterates pac (output_file outputPath fileName) partitionSize
                 (stream_start (output_file outputPath fileName) partitionSize addr w2) final
            \<and> dataSizeLeft final = 0
            \<and> w' = put Newline (wld final)
            \<and> (\<forall>t. iterates pac (output_file outputPath fileName) partitionSize
                     (stream_start (output_file outputPath fileName) partitionSize addr w2) t
                  \<longrightarrow>
                  files (wld t) (output_file outputPath fileName)
                    = Some (take (unat (dataSizeRead t))
                              (take (unat partitionSize) (drop (unat addr) pac)))
                  \<and> unat (dataSizeRead t) + unat (dataSizeLeft t) = unat partitionSize
                  \<and> (0 < dataSizeLeft t \<longrightarrow>
                       (\<exists>t'. copy_step pac (output_file outputPath fileName) partitionSize t
                                = Inr t'
                          \<and> iterates pac (output_file outputPath fileName) partitionSize
                               (stream_start (output_file outputPath fileName) partitionSize
                                  addr w2) t'
                          \<and> unat (dataSizeRead t')
                               = unat (dataSizeRead t)
                                 + min (unat (dataSizeLeft t)) BUFFER_SIZE
                          \<and> files (wld t') (output_file outputPath fileName)
                               = Some (take (unat (dataSizeRead t))
                                         (take (unat partitionSize) (drop (unat addr) pac))
                                       @ take (min (unat (dataSizeLeft t)) BUFFER_SIZE)
                                           (drop (unat (dataSizeRead t))
                                              (take (unat partitionSize)
                                                 (drop (unat addr) pac))))
                          \<and> length (take (min (unat (dataSizeLeft t)) BUFFER_SIZE)
                                           (drop (unat (dataSizeRead t))
                                              (take (unat partitionSize)
                                                 (drop (unat addr) pac))))
                               = min (unat (dataSizeLeft t)) BUFFER_SIZE
                          \<and> stdout (wld t')
                               = stdout (wld t) @ [Progress (dataSizeRead t') partitionSize])))"
    by blast
next
  show "\<forall>path s s' cur. copy_step pac path partitionSize s = Inr s'
              \<and> files (wld s) path = Some cur \<longrightarrow>
            files (wld s') path
               = Some (cur @ take (min (unat (dataSizeLeft s)) BUFFER_SIZE) (drop (fpos s) pac))
            \<and> length (take (min (unat (dataSizeLeft s)) BUFFER_SIZE) (drop (fpos s) pac))
               = min (unat (dataSizeLeft s)) BUFFER_SIZE
            \<and> unat (dataSizeLeft s')
               = unat (dataSizeLeft s) - min (unat (dataSizeLeft s)) BUFFER_SIZE"
  proof (intro allI impI, elim conjE)
    fix path s s' cur
    assume st: "copy_step pac path partitionSize s = Inr s'" and f: "files (wld s) path = Some cur"
    note c0 = copy_step_Inr [OF st]
    have c6: "files (wld s') path
        = Some (cur @ take (min (unat (dataSizeLeft s)) BUFFER_SIZE) (drop (fpos s) pac))"
      using c0(6) f by simp
    from c0(4) have "length (take (min (unat (dataSizeLeft s)) BUFFER_SIZE) (drop (fpos s) pac))
               = min (unat (dataSizeLeft s)) BUFFER_SIZE" by simp
    with c0(1) c6 show "files (wld s') path
               = Some (cur @ take (min (unat (dataSizeLeft s)) BUFFER_SIZE) (drop (fpos s) pac))
            \<and> length (take (min (unat (dataSizeLeft s)) BUFFER_SIZE) (drop (fpos s) pac))
               = min (unat (dataSizeLeft s)) BUFFER_SIZE
            \<and> unat (dataSizeLeft s')
               = unat (dataSizeLeft s) - min (unat (dataSizeLeft s)) BUFFER_SIZE"
      by simp
  qed
qed

section \<open>Runs of the loop that cannot finish\<close>

lemma multiple_below:
  fixes B :: nat
  assumes "B dvd m" and "m \<le> x" and "x < m + c" and "c \<le> B" and "0 < B"
  shows "m = B * (x div B)"
proof -
  from assms(1) obtain q where q: "m = B * q" by (elim dvdE)
  have "x div B = q"
  proof (rule div_nat_eqI)
    show "B * q \<le> x" using assms(2) q by simp
    show "x < B * Suc q" using assms(3,4) q by simp
  qed
  with q show ?thesis by simp
qed

lemma multiple_le_floor:
  fixes B :: nat
  assumes "B dvd m" and "m \<le> x" and "0 < B"
  shows "m \<le> B * (x div B)"
proof -
  from assms(1) obtain q where q: "m = B * q" by (elim dvdE)
  from assms(2) q have "q * B \<le> x" by (simp add: mult.commute)
  then have "q \<le> x div B" using assms(3) by (simp add: less_eq_div_iff_mult_less_eq)
  then show ?thesis using q by simp
qed

text \<open>
  A run of the loop that cannot finish: where it stops, with which diagnostic, and what
  it leaves. \<open>avail\<close> is the number of container bytes from the payload address,
  \<open>room\<close> the number of bytes the device accepts.
\<close>

lemma failing_run:
  assumes s0: "dataSizeLeft s0 = n" "dataSizeRead s0 = 0" "fpos s0 = a0"
      "files (wld s0) path = Some []" "disk_free (wld s0) = room"
    and short: "length pac - a0 < unat n \<or> room < unat n"
  defines "avail \<equiv> length pac - a0"
    and "payload \<equiv> take (unat n) (drop a0 pac)"
  shows "\<exists>t. iterates pac path n s0 t \<and> 0 < dataSizeLeft t
          \<and> files (wld t) path = Some (take (unat (dataSizeRead t)) payload)
          \<and> ((avail < unat n \<and> BUFFER_SIZE * (avail div BUFFER_SIZE) \<le> room
               \<and> unat (dataSizeRead t) = BUFFER_SIZE * (avail div BUFFER_SIZE)
               \<and> length pac - fpos t < min (unat (dataSizeLeft t)) BUFFER_SIZE
               \<and> copy_loop pac path n s0
                   = (Inl (Exit_failure ''Error while reading partition data''), wld t))
             \<or> (\<not> (avail < unat n \<and> BUFFER_SIZE * (avail div BUFFER_SIZE) \<le> room)
               \<and> room < unat n
               \<and> unat (dataSizeRead t) = BUFFER_SIZE * (room div BUFFER_SIZE)
               \<and> min (unat (dataSizeLeft t)) BUFFER_SIZE \<le> length pac - fpos t
               \<and> disk_free (wld t) < min (unat (dataSizeLeft t)) BUFFER_SIZE
               \<and> copy_loop pac path n s0
                   = (Inl (Exit_failure ''Error while writing partition data''),
                      (wld t)\<lparr>files := (files (wld t))(path \<mapsto> take room payload),
                              disk_free := 0\<rparr>)))"
proof -
  obtain r w3 where cl: "copy_loop pac path n s0 = (r, w3)" by (cases "copy_loop pac path n s0")
  have ne: "r \<noteq> Inr ()"
  proof
    assume "r = Inr ()"
    with copy_loop_files [OF s0(4) cl] s0 have "unat n \<le> length pac - a0" "unat n \<le> room"
      by simp_all
    with short show False by linarith
  qed
  with copy_loop_ends [OF cl] obtain t a where
    it: "iterates pac path n s0 t" and ra: "r = Inl a" and pos: "0 < dataSizeLeft t"
    and st: "copy_step pac path n t = Inl (a, w3)" by blast
  let ?rd = "unat (dataSizeRead t)"
  let ?c = "min (unat (dataSizeLeft t)) BUFFER_SIZE"
  let ?B = BUFFER_SIZE
  have Bpos: "0 < ?B" by (simp add: BUFFER_SIZE_def)
  from iterates_from_start [OF it s0] have
    sum: "?rd + unat (dataSizeLeft t) = unat n"
    and fp: "fpos t = a0 + ?rd"
    and fl: "files (wld t) path = Some (take ?rd (drop a0 pac))"
    and av: "?rd \<le> avail"
    and rm: "?rd \<le> room" "disk_free (wld t) = room - ?rd"
    and dv: "?B dvd ?rd \<or> dataSizeLeft t = 0"
    by (simp_all add: avail_def)
  from dv pos have dvd: "?B dvd ?rd" by auto
  have cB: "?c \<le> ?B" by simp
  have cl': "?c \<le> unat (dataSizeLeft t)" by simp
  have tk: "take k payload = take k (drop a0 pac)" if "k \<le> unat n" for k
    using that by (simp add: payload_def min_absorb1)
  have fcont: "files (wld t) path = Some (take ?rd payload)" using fl tk sum by simp
  have gap: "length pac - fpos t = avail - ?rd" using fp by (simp add: avail_def)
  from copy_step_Inl [OF st]
  consider (rd) "a = Exit_failure ''Error while reading partition data''" "w3 = wld t"
      "length pac - fpos t < ?c"
    | (wr) "a = Exit_failure ''Error while writing partition data''"
      "disk_free (wld t) < ?c" "?c \<le> length pac - fpos t"
      "w3 = (wld t)\<lparr>files := (files (wld t))
                (path \<mapsto> (case files (wld t) path of None \<Rightarrow> [] | Some bs \<Rightarrow> bs)
                          @ take (disk_free (wld t)) (drop (fpos t) pac)),
              disk_free := 0\<rparr>"
    by auto
  then show ?thesis
  proof cases
    case rd
    from rd(3) gap av have lt: "avail < ?rd + ?c" by linarith
    have eq: "?rd = ?B * (avail div ?B)" by (rule multiple_below [OF dvd av lt cB Bpos])
    have "avail < unat n" using lt cl' sum by linarith
    moreover have "?B * (avail div ?B) \<le> room" using eq rm(1) by simp
    moreover have "copy_loop pac path n s0
        = (Inl (Exit_failure ''Error while reading partition data''), wld t)"
      using cl ra rd by simp
    ultimately show ?thesis using it pos fcont eq rd(3) by blast
  next
    case wr
    from wr(2) rm have lt: "room < ?rd + ?c" by linarith
    have eq: "?rd = ?B * (room div ?B)" by (rule multiple_below [OF dvd rm(1) lt cB Bpos])
    have rn: "room < unat n" using lt cl' sum by linarith
    from wr(3) gap av have full: "?rd + ?c \<le> avail" by linarith
    have no: "\<not> (avail < unat n \<and> ?B * (avail div ?B) \<le> room)"
    proof
      assume c: "avail < unat n \<and> ?B * (avail div ?B) \<le> room"
      show False
      proof (cases "?B \<le> unat (dataSizeLeft t)")
        case True
        then have cB': "?c = ?B" by simp
        have "?B dvd ?rd + ?B" using dvd by simp
        from multiple_le_floor [OF this _ Bpos, of avail] full cB'
        have "?rd + ?B \<le> ?B * (avail div ?B)" by simp
        with c lt cB' show False by linarith
      next
        case False
        then have "?c = unat (dataSizeLeft t)" by simp
        with full sum c show False by linarith
      qed
    qed
    have "take ?rd payload @ take (room - ?rd) (drop (fpos t) pac) = take room payload"
    proof -
      have "drop (fpos t) pac = drop ?rd (drop a0 pac)" using fp by (simp add: add.commute)
      moreover have "take ?rd payload = take ?rd (drop a0 pac)" using tk sum by simp
      moreover have "take room payload = take room (drop a0 pac)" using tk rn by simp
      moreover have "take (?rd + (room - ?rd)) (drop a0 pac)
          = take ?rd (drop a0 pac) @ take (room - ?rd) (drop ?rd (drop a0 pac))"
        by (rule take_add)
      ultimately show ?thesis using rm(1) by simp
    qed
    with wr(4) fcont rm(2) have w3: "w3 = (wld t)\<lparr>files := (files (wld t))
          (path \<mapsto> take room payload), disk_free := 0\<rparr>"
      by simp
    have "copy_loop pac path n s0
        = (Inl (Exit_failure ''Error while writing partition data''),
           (wld t)\<lparr>files := (files (wld t))(path \<mapsto> take room payload), disk_free := 0\<rparr>)"
      using cl ra wr(1) w3 by simp
    with it pos fcont no rn eq wr(2,3) show ?thesis by blast
  qed
qed


text \<open>
  Claim C9. Once the destination file is open, a container that holds fewer than
  \<^verbatim>\<open>partitionSize\<close> bytes from the payload address, or a device that accepts fewer than
  \<^verbatim>\<open>partitionSize\<close> bytes, ends the extraction in the pass \<open>t\<close> of the loop where the
  shortage shows, with \<^verbatim>\<open>exit(EXIT_FAILURE)\<close>; no later pass is made. Up to that pass
  whole buffers were copied, and the file holds those \<^verbatim>\<open>dataSizeRead\<close> bytes of the
  payload. If the read of that pass is short (the container ends within the buffer
  that starts at \<open>BUFFER_SIZE * (avail div BUFFER_SIZE)\<close>, and the device had room up
  to there), the diagnostic is the read one and the world returned is the world as it
  was before the call, the file as it stood. Otherwise the read is full and the write
  is short: the diagnostic is the write one, and the world returned differs from the
  world before the call only in what the device accepted, so that the file holds the
  first \<open>room\<close> bytes of the payload and the device has no room left. In neither case
  is the file removed or cut back.
\<close>

theorem short_transfer_is_fatal:
  assumes "ph_partitionSize partHeader = Some partitionSize" and "partitionSize \<noteq> 0"
    and "ph_partitionAddrInPac partHeader = Some addr"
    and "malloc_ok e BUFFER_SIZE"
    and "call_getString 512 (ph_fileName partHeader) = Inr fileName"
    and "remove_file e (output_file outputPath fileName) w = Some w1"
    and "open_new e (output_file outputPath fileName) w1 = Some w2"
    and "length pac - unat addr < unat partitionSize \<or> disk_free w < unat partitionSize"
  shows "\<exists>t. iterates pac (output_file outputPath fileName) partitionSize
               (stream_start (output_file outputPath fileName) partitionSize addr w2) t
          \<and> 0 < dataSizeLeft t
          \<and> files (wld t) (output_file outputPath fileName)
               = Some (take (unat (dataSizeRead t))
                         (take (unat partitionSize) (drop (unat addr) pac)))
          \<and> ((length pac - unat addr < unat partitionSize
               \<and> BUFFER_SIZE * ((length pac - unat addr) div BUFFER_SIZE) \<le> disk_free w
               \<and> unat (dataSizeRead t)
                   = BUFFER_SIZE * ((length pac - unat addr) div BUFFER_SIZE)
               \<and> length pac - fpos t < min (unat (dataSizeLeft t)) BUFFER_SIZE
               \<and> extractPartition e pac partHeader outputPath w
                   = (Inl (Exit_failure ''Error while reading partition data''), wld t))
             \<or> (\<not> (length pac - unat addr < unat partitionSize
                    \<and> BUFFER_SIZE * ((length pac - unat addr) div BUFFER_SIZE) \<le> disk_free w)
               \<and> disk_free w < unat partitionSize
               \<and> unat (dataSizeRead t) = BUFFER_SIZE * (disk_free w div BUFFER_SIZE)
               \<and> min (unat (dataSizeLeft t)) BUFFER_SIZE \<le> length pac - fpos t
               \<and> disk_free (wld t) < min (unat (dataSizeLeft t)) BUFFER_SIZE
               \<and> extractPartition e pac partHeader outputPath w
                   = (Inl (Exit_failure ''Error while writing partition data''),
                      (wld t)\<lparr>files := (files (wld t))
                                (output_file outputPath fileName \<mapsto>
                                   take (disk_free w)
                                     (take (unat partitionSize) (drop (unat addr) pac))),
                              disk_free := 0\<rparr>)))"
proof -
  let ?p = "output_file outputPath fileName"
  let ?s0 = "stream_start ?p partitionSize addr w2"
  note eq = extractPartition_stream [OF assms(1-7), of pac]
  have room: "disk_free (wld ?s0) = disk_free w"
    using open_new_Some(2) [OF assms(7)] remove_file_disk_free [OF assms(6)]
    by (simp add: stream_start_simps)
  have s0: "dataSizeLeft ?s0 = partitionSize" "dataSizeRead ?s0 = 0" "fpos ?s0 = unat addr"
    "files (wld ?s0) ?p = Some []"
    using open_new_Some(1) [OF assms(7)] by (simp_all add: stream_start_simps)
  from failing_run [OF s0 room assms(8)] obtain t where
    t: "iterates pac ?p partitionSize ?s0 t" "0 < dataSizeLeft t"
      "files (wld t) ?p = Some (take (unat (dataSizeRead t))
                         (take (unat partitionSize) (drop (unat addr) pac)))"
    and cases: "(length pac - unat addr < unat partitionSize
               \<and> BUFFER_SIZE * ((length pac - unat addr) div BUFFER_SIZE) \<le> disk_free w
               \<and> unat (dataSizeRead t)
                   = BUFFER_SIZE * ((length pac - unat addr) div BUFFER_SIZE)
               \<and> length pac - fpos t < min (unat (dataSizeLeft t)) BUFFER_SIZE
               \<and> copy_loop pac ?p partitionSize ?s0
                   = (Inl (Exit_failure ''Error while reading partition data''), wld t))
             \<or> (\<not> (length pac - unat addr < unat partitionSize
                    \<and> BUFFER_SIZE * ((length pac - unat addr) div BUFFER_SIZE) \<le> disk_free w)
               \<and> disk_free w < unat partitionSize
               \<and> unat (dataSizeRead t) = BUFFER_SIZE * (disk_free w div BUFFER_SIZE)
               \<and> min (unat (dataSizeLeft t)) BUFFER_SIZE \<le> length pac - fpos t
               \<and> disk_free (wld t) < min (unat (dataSizeLeft t)) BUFFER_SIZE
               \<and> copy_loop pac ?p partitionSize ?s0
                   = (Inl (Exit_failure ''Error while writing partition data''),
                      (wld t)\<lparr>files := (files (wld t))
                                (?p \<mapsto> take (disk_free w)
                                     (take (unat partitionSize) (drop (unat addr) pac))),
                              disk_free := 0\<rparr>))"
    by blast
  from cases show ?thesis
  proof (elim disjE conjE)
    assume a: "length pac - unat addr < unat partitionSize"
      "BUFFER_SIZE * ((length pac - unat addr) div BUFFER_SIZE) \<le> disk_free w"
      "unat (dataSizeRead t) = BUFFER_SIZE * ((length pac - unat addr) div BUFFER_SIZE)"
      "length pac - fpos t < min (unat (dataSizeLeft t)) BUFFER_SIZE"
      and cl: "copy_loop pac ?p partitionSize ?s0
                   = (Inl (Exit_failure ''Error while reading partition data''), wld t)"
    from eq cl have "extractPartition e pac partHeader outputPath w
        = (Inl (Exit_failure ''Error while reading partition data''), wld t)" by simp
    with t a show ?thesis by blast
  next
    assume a: "\<not> (length pac - unat addr < unat partitionSize
                    \<and> BUFFER_SIZE * ((length pac - unat addr) div BUFFER_SIZE) \<le> disk_free w)"
      "disk_free w < unat partitionSize"
      "unat (dataSizeRead t) = BUFFER_SIZE * (disk_free w div BUFFER_SIZE)"
      "min (unat (dataSizeLeft t)) BUFFER_SIZE \<le> length pac - fpos t"
      "disk_free (wld t) < min (unat (dataSizeLeft t)) BUFFER_SIZE"
      and cl: "copy_loop pac ?p partitionSize ?s0
                   = (Inl (Exit_failure ''Error while writing partition data''),
                      (wld t)\<lparr>files := (files (wld t))
                                (?p \<mapsto> take (disk_free w)
                                     (take (unat partitionSize) (drop (unat addr) pac))),
                              disk_free := 0\<rparr>)"
    from eq cl have "extractPartition e pac partHeader outputPath w
        = (Inl (Exit_failure ''Error while writing partition data''),
                      (wld t)\<lparr>files := (files (wld t))
                                (?p \<mapsto> take (disk_free w)
                                     (take (unat partitionSize) (drop (unat addr) pac))),
                              disk_free := 0\<rparr>)" by simp
    with t a show ?thesis by blast
  qed
qed

section \<open>A payload of more than one buffer\<close>

text \<open>
  A record for a 300000-byte payload at address 0, file name \<open>b\<close>, extracted into the
  existing directory \<open>out\<close>: the loop makes one pass of \<^verbatim>\<open>BUFFER_SIZE\<close> bytes and one of
  37856. The same record over a container cut at 280000 bytes has a short read in the
  second pass; over a device with room for 270000 bytes, a short write.
\<close>

lemma big_record_size: "ph_partitionSize big_record = Some 300000"
  by (simp add: big_record_def sample_partitionSize)

lemma big_record_addr: "ph_partitionAddrInPac big_record = Some 0"
  by (simp add: big_record_def sample_partitionAddrInPac)

lemma big_record_fileName: "call_getString 512 (ph_fileName big_record) = Inr ''b''"
  unfolding big_record_def by (rule sample_fileName)

lemma out_b: "output_file ''out'' ''b'' = ''out/b''"
  by (simp add: output_file_def)

lemma out_b_remove: "remove_file lp64 ''out/b'' (out_world room) = Some (out_world room)"
  by (simp add: remove_file_def out_world_def)

lemma out_b_open: "open_new lp64 ''out/b'' (out_world room) = Some (big_opened room)"
  by (simp add: open_new_def dir_part_def out_world_def lp64_def big_opened_def)

lemma malloc_buffer_lp64: "malloc_ok lp64 BUFFER_SIZE"
  by (simp add: lp64_def BUFFER_SIZE_def)

lemma big_start_left:
  "0 < dataSizeLeft (stream_start ''out/b'' 300000 0 (big_opened room))"
  by (simp add: stream_start_def)

lemma big_second_left: "0 < dataSizeLeft (big_second room)"
  by (simp add: big_second_def)

lemma big_first_pass:
  "copy_step big_pac ''out/b'' 300000 (stream_start ''out/b'' 300000 0 (big_opened 1000000))
     = Inr (big_second 1000000)"
  by (simp add: copy_step_def stream_start_def BUFFER_SIZE_def fd_read_def fd_write_def put_def
      big_pac_def big_opened_def big_second_def)

lemma big_first_pass_tight:
  "copy_step big_pac ''out/b'' 300000 (stream_start ''out/b'' 300000 0 (big_opened 270000))
     = Inr (big_second 270000)"
  by (simp add: copy_step_def stream_start_def BUFFER_SIZE_def fd_read_def fd_write_def put_def
      big_pac_def big_opened_def big_second_def)

lemma cut_first_pass:
  "copy_step cut_pac ''out/b'' 300000 (stream_start ''out/b'' 300000 0 (big_opened 1000000))
     = Inr (big_second 1000000)"
  by (simp add: copy_step_def stream_start_def BUFFER_SIZE_def fd_read_def fd_write_def put_def
      cut_pac_def big_opened_def big_second_def)

lemma big_run:
  "copy_loop big_pac ''out/b'' 300000 (stream_start ''out/b'' 300000 0 (big_opened 1000000))
     = (Inr (), \<lparr>files = [''out/b'' \<mapsto> replicate 262144 7 @ replicate 37856 7],
                 dirs = {''out''}, disk_free = 700000,
                 stdout = [Extracting ''out/b'', Progress 262144 300000,
                           Progress 300000 300000]\<rparr>)"
  unfolding copy_loop_Inr [OF big_start_left big_first_pass]
  apply (subst copy_loop.simps)
  apply (simp add: copy_step_def BUFFER_SIZE_def fd_read_def fd_write_def put_def big_pac_def
      big_second_def)
  apply (subst copy_loop.simps)
  apply simp
  done

lemma cut_run:
  "copy_loop cut_pac ''out/b'' 300000 (stream_start ''out/b'' 300000 0 (big_opened 1000000))
     = (Inl (Exit_failure ''Error while reading partition data''), wld (big_second 1000000))"
  unfolding copy_loop_Inr [OF big_start_left cut_first_pass]
  apply (subst copy_loop.simps)
  apply (simp add: copy_step_def BUFFER_SIZE_def fd_read_def cut_pac_def big_second_def)
  done

lemma tight_run:
  "copy_loop big_pac ''out/b'' 300000 (stream_start ''out/b'' 300000 0 (big_opened 270000))
     = (Inl (Exit_failure ''Error while writing partition data''),
        \<lparr>files = [''out/b'' \<mapsto> replicate 262144 7 @ replicate 7856 7], dirs = {''out''},
         disk_free = 0, stdout = [Extracting ''out/b'', Progress 262144 300000]\<rparr>)"
  unfolding copy_loop_Inr [OF big_start_left big_first_pass_tight]
  apply (subst copy_loop.simps)
  apply (simp add: copy_step_def BUFFER_SIZE_def fd_read_def fd_write_def big_pac_def
      big_second_def)
  done

lemma big_extract_stream:
  "extractPartition lp64 pac big_record ''out'' (out_world room) =
     (case copy_loop pac ''out/b'' 300000 (stream_start ''out/b'' 300000 0 (big_opened room)) of
        (Inl a, w3) \<Rightarrow> (Inl a, w3)
      | (Inr u, w3) \<Rightarrow> (Inr (), put Newline w3))"
  using extractPartition_stream [OF big_record_size _ big_record_addr malloc_buffer_lp64
      big_record_fileName, of "''out''" "out_world room" "out_world room" "big_opened room" pac]
  by (simp add: out_b out_b_remove out_b_open)

lemma big_extract:
  "extractPartition lp64 big_pac big_record ''out'' (out_world 1000000)
     = (Inr (), \<lparr>files = [''out/b'' \<mapsto> replicate 262144 7 @ replicate 37856 7],
                 dirs = {''out''}, disk_free = 700000,
                 stdout = [Extracting ''out/b'', Progress 262144 300000,
                           Progress 300000 300000, Newline]\<rparr>)"
  by (simp add: big_extract_stream big_run put_def)

lemma cut_extract:
  "extractPartition lp64 cut_pac big_record ''out'' (out_world 1000000)
     = (Inl (Exit_failure ''Error while reading partition data''), wld (big_second 1000000))"
  by (simp add: big_extract_stream cut_run)

lemma tight_extract:
  "extractPartition lp64 big_pac big_record ''out'' (out_world 270000)
     = (Inl (Exit_failure ''Error while writing partition data''),
        \<lparr>files = [''out/b'' \<mapsto> replicate 262144 7 @ replicate 7856 7], dirs = {''out''},
         disk_free = 0, stdout = [Extracting ''out/b'', Progress 262144 300000]\<rparr>)"
  by (simp add: big_extract_stream tight_run)


theorem extracted_file_is_payload_witness:
  "ph_partitionSize big_record = Some 300000 \<and> (300000 :: u32) \<noteq> 0
   \<and> extractPartition lp64 big_pac big_record ''out'' (out_world 1000000)
       = (Inr (), \<lparr>files = [''out/b'' \<mapsto> replicate 262144 7 @ replicate 37856 7],
                   dirs = {''out''}, disk_free = 700000,
                   stdout = [Extracting ''out/b'', Progress 262144 300000,
                             Progress 300000 300000, Newline]\<rparr>)
   \<and> (\<exists>final. iterates big_pac ''out/b'' 300000
                  (stream_start ''out/b'' 300000 0 (big_opened 1000000)) final
          \<and> dataSizeLeft final = 0
          \<and> \<lparr>files = [''out/b'' \<mapsto> replicate 262144 7 @ replicate 37856 7],
               dirs = {''out''}, disk_free = 700000,
               stdout = [Extracting ''out/b'', Progress 262144 300000,
                         Progress 300000 300000, Newline]\<rparr> = put Newline (wld final))
   \<and> iterates big_pac ''out/b'' 300000
        (stream_start ''out/b'' 300000 0 (big_opened 1000000)) (big_second 1000000)
   \<and> 0 < dataSizeLeft (big_second 1000000)
   \<and> files (wld (big_second 1000000)) ''out/b''
       = Some (take (unat (dataSizeRead (big_second 1000000)))
                 (take (unat (300000 :: u32)) (drop (unat (0 :: u32)) big_pac)))
   \<and> (\<exists>t'. copy_step big_pac ''out/b'' 300000 (big_second 1000000) = Inr t'
          \<and> unat (dataSizeRead t')
              = unat (dataSizeRead (big_second 1000000))
                + min (unat (dataSizeLeft (big_second 1000000))) BUFFER_SIZE
          \<and> stdout (wld t')
              = stdout (wld (big_second 1000000)) @ [Progress (dataSizeRead t') 300000])"
proof -
  let ?W = "\<lparr>files = [''out/b'' \<mapsto> replicate 262144 7 @ replicate 37856 7],
             dirs = {''out''}, disk_free = 700000,
             stdout = [Extracting ''out/b'', Progress 262144 300000,
                       Progress 300000 300000, Newline]\<rparr>"
  let ?s0 = "stream_start ''out/b'' 300000 0 (big_opened 1000000)"
  have nz: "(300000 :: u32) \<noteq> 0" by simp
  from conjunct1 [OF extracted_file_is_payload [OF big_record_size nz big_extract]]
  obtain addr fileName w1 w2 final where
    a: "ph_partitionAddrInPac big_record = Some addr"
    and f: "call_getString 512 (ph_fileName big_record) = Inr fileName"
    and r: "remove_file lp64 (output_file ''out'' fileName) (out_world 1000000) = Some w1"
    and p: "open_new lp64 (output_file ''out'' fileName) w1 = Some w2"
    and fin: "iterates big_pac (output_file ''out'' fileName) 300000
                 (stream_start (output_file ''out'' fileName) 300000 addr w2) final"
      "dataSizeLeft final = 0" "?W = put Newline (wld final)"
    and all: "\<forall>t. iterates big_pac (output_file ''out'' fileName) 300000
                     (stream_start (output_file ''out'' fileName) 300000 addr w2) t
                  \<longrightarrow>
                  files (wld t) (output_file ''out'' fileName)
                    = Some (take (unat (dataSizeRead t))
                              (take (unat (300000 :: u32)) (drop (unat addr) big_pac)))
                  \<and> unat (dataSizeRead t) + unat (dataSizeLeft t) = unat (300000 :: u32)
                  \<and> (0 < dataSizeLeft t \<longrightarrow>
                       (\<exists>t'. copy_step big_pac (output_file ''out'' fileName) 300000 t
                                = Inr t'
                          \<and> iterates big_pac (output_file ''out'' fileName) 300000
                               (stream_start (output_file ''out'' fileName) 300000
                                  addr w2) t'
                          \<and> unat (dataSizeRead t')
                               = unat (dataSizeRead t)
                                 + min (unat (dataSizeLeft t)) BUFFER_SIZE
                          \<and> files (wld t') (output_file ''out'' fileName)
                               = Some (take (unat (dataSizeRead t))
                                         (take (unat (300000 :: u32)) (drop (unat addr) big_pac))
                                       @ take (min (unat (dataSizeLeft t)) BUFFER_SIZE)
                                           (drop (unat (dataSizeRead t))
                                              (take (unat (300000 :: u32))
                                                 (drop (unat addr) big_pac))))
                          \<and> length (take (min (unat (dataSizeLeft t)) BUFFER_SIZE)
                                           (drop (unat (dataSizeRead t))
                                              (take (unat (300000 :: u32))
                                                 (drop (unat addr) big_pac))))
                               = min (unat (dataSizeLeft t)) BUFFER_SIZE
                          \<and> stdout (wld t')
                               = stdout (wld t) @ [Progress (dataSizeRead t') 300000]))"
    by blast
  from a big_record_addr have addr: "addr = 0" by simp
  from f big_record_fileName have fileName: "fileName = ''b''" by simp
  from r have w1: "w1 = out_world 1000000" by (simp add: fileName out_b out_b_remove)
  from p have w2: "w2 = big_opened 1000000" by (simp add: fileName out_b w1 out_b_open)
  have pth: "output_file ''out'' fileName = ''out/b''" by (simp add: fileName out_b)
  from fin have 1: "\<exists>final. iterates big_pac ''out/b'' 300000 ?s0 final
      \<and> dataSizeLeft final = 0 \<and> ?W = put Newline (wld final)"
    unfolding pth addr w2 by blast
  have 2: "iterates big_pac ''out/b'' 300000 ?s0 (big_second 1000000)"
    by (rule iterates_step [OF iterates_start big_start_left big_first_pass])
  from all [unfolded pth addr w2] 2 have 3: "files (wld (big_second 1000000)) ''out/b''
       = Some (take (unat (dataSizeRead (big_second 1000000)))
                 (take (unat (300000 :: u32)) (drop (unat (0 :: u32)) big_pac)))"
    by blast
  from all [unfolded pth addr w2] 2 big_second_left [of 1000000]
  have 4: "\<exists>t'. copy_step big_pac ''out/b'' 300000 (big_second 1000000) = Inr t'
          \<and> unat (dataSizeRead t')
              = unat (dataSizeRead (big_second 1000000))
                + min (unat (dataSizeLeft (big_second 1000000))) BUFFER_SIZE
          \<and> stdout (wld t')
              = stdout (wld (big_second 1000000)) @ [Progress (dataSizeRead t') 300000]"
    by blast
  from big_record_size nz big_extract 1 2 big_second_left [of 1000000] 3 4
  show ?thesis by (intro conjI)
qed


lemma out_b_removed:
  "remove_file lp64 (output_file ''out'' ''b'') (out_world room) = Some (out_world room)"
  by (simp add: out_b out_b_remove)

lemma out_b_opened:
  "open_new lp64 (output_file ''out'' ''b'') (out_world room) = Some (big_opened room)"
  by (simp add: out_b out_b_open)

lemma cut_pac_short: "length cut_pac - unat (0 :: u32) < unat (300000 :: u32)"
  by (simp add: cut_pac_def)

lemma cut_pac_floor:
  "BUFFER_SIZE * ((length cut_pac - unat (0 :: u32)) div BUFFER_SIZE) = 262144"
  by (simp add: cut_pac_def BUFFER_SIZE_def)

lemma big_pac_full: "\<not> length big_pac - unat (0 :: u32) < unat (300000 :: u32)"
  by (simp add: big_pac_def)

lemma out_world_room: "disk_free (out_world room) = room"
  by (simp add: out_world_def)

lemma tight_floor: "BUFFER_SIZE * (270000 div BUFFER_SIZE) = 262144"
  by (simp add: BUFFER_SIZE_def)

theorem short_transfer_is_fatal_witness:
  "ph_partitionSize big_record = Some 300000 \<and> (300000 :: u32) \<noteq> 0
   \<and> ph_partitionAddrInPac big_record = Some 0
   \<and> malloc_ok lp64 BUFFER_SIZE
   \<and> call_getString 512 (ph_fileName big_record) = Inr ''b''
   \<and> remove_file lp64 (output_file ''out'' ''b'') (out_world 1000000)
       = Some (out_world 1000000)
   \<and> open_new lp64 (output_file ''out'' ''b'') (out_world 1000000)
       = Some (big_opened 1000000)
   \<and> length cut_pac - unat (0 :: u32) < unat (300000 :: u32)
   \<and> (\<exists>t. iterates cut_pac ''out/b'' 300000
               (stream_start ''out/b'' 300000 0 (big_opened 1000000)) t
          \<and> 0 < dataSizeLeft t
          \<and> files (wld t) ''out/b''
               = Some (take (unat (dataSizeRead t))
                         (take (unat (300000 :: u32)) (drop (unat (0 :: u32)) cut_pac)))
          \<and> unat (dataSizeRead t) = 262144
          \<and> length cut_pac - fpos t < min (unat (dataSizeLeft t)) BUFFER_SIZE
          \<and> extractPartition lp64 cut_pac big_record ''out'' (out_world 1000000)
               = (Inl (Exit_failure ''Error while reading partition data''), wld t)
          \<and> wld t = \<lparr>files = [''out/b'' \<mapsto> replicate 262144 7], dirs = {''out''},
                       disk_free = 737856,
                       stdout = [Extracting ''out/b'', Progress 262144 300000]\<rparr>)
   \<and> remove_file lp64 (output_file ''out'' ''b'') (out_world 270000)
       = Some (out_world 270000)
   \<and> open_new lp64 (output_file ''out'' ''b'') (out_world 270000)
       = Some (big_opened 270000)
   \<and> disk_free (out_world 270000) < unat (300000 :: u32)
   \<and> (\<exists>t. iterates big_pac ''out/b'' 300000
               (stream_start ''out/b'' 300000 0 (big_opened 270000)) t
          \<and> 0 < dataSizeLeft t
          \<and> files (wld t) ''out/b''
               = Some (take (unat (dataSizeRead t))
                         (take (unat (300000 :: u32)) (drop (unat (0 :: u32)) big_pac)))
          \<and> unat (dataSizeRead t) = 262144
          \<and> min (unat (dataSizeLeft t)) BUFFER_SIZE \<le> length big_pac - fpos t
          \<and> disk_free (wld t) < min (unat (dataSizeLeft t)) BUFFER_SIZE
          \<and> extractPartition lp64 big_pac big_record ''out'' (out_world 270000)
               = (Inl (Exit_failure ''Error while writing partition data''),
                  (wld t)\<lparr>files := (files (wld t))
                            (''out/b'' \<mapsto>
                               take 270000
                                 (take (unat (300000 :: u32))
                                    (drop (unat (0 :: u32)) big_pac))),
                          disk_free := 0\<rparr>))
   \<and> extractPartition lp64 big_pac big_record ''out'' (out_world 270000)
       = (Inl (Exit_failure ''Error while writing partition data''),
          \<lparr>files = [''out/b'' \<mapsto> replicate 262144 7 @ replicate 7856 7],
           dirs = {''out''}, disk_free = 0,
           stdout = [Extracting ''out/b'', Progress 262144 300000]\<rparr>)"
proof -
  have nz: "(300000 :: u32) \<noteq> 0" by simp
  have short_read: "length cut_pac - unat (0 :: u32) < unat (300000 :: u32)
      \<or> disk_free (out_world 1000000) < unat (300000 :: u32)"
    using cut_pac_short by blast
  have room: "disk_free (out_world 270000) < unat (300000 :: u32)"
    by (simp add: out_world_room)
  have short_write: "length big_pac - unat (0 :: u32) < unat (300000 :: u32)
      \<or> disk_free (out_world 270000) < unat (300000 :: u32)"
    using room by blast
  have second: "wld (big_second 1000000)
      = \<lparr>files = [''out/b'' \<mapsto> replicate 262144 7], dirs = {''out''},
         disk_free = 737856,
         stdout = [Extracting ''out/b'', Progress 262144 300000]\<rparr>"
    by (simp add: big_second_def)
  from short_transfer_is_fatal [OF big_record_size nz big_record_addr malloc_buffer_lp64
      big_record_fileName out_b_removed out_b_opened short_read]
  obtain t where
    t: "iterates cut_pac ''out/b'' 300000
          (stream_start ''out/b'' 300000 0 (big_opened 1000000)) t"
      "0 < dataSizeLeft t"
      "files (wld t) ''out/b''
         = Some (take (unat (dataSizeRead t))
                   (take (unat (300000 :: u32)) (drop (unat (0 :: u32)) cut_pac)))"
    and c: "(unat (dataSizeRead t)
               = BUFFER_SIZE * ((length cut_pac - unat (0 :: u32)) div BUFFER_SIZE)
             \<and> length cut_pac - fpos t < min (unat (dataSizeLeft t)) BUFFER_SIZE
             \<and> extractPartition lp64 cut_pac big_record ''out'' (out_world 1000000)
                 = (Inl (Exit_failure ''Error while reading partition data''), wld t))
            \<or> \<not> (length cut_pac - unat (0 :: u32) < unat (300000 :: u32)
                 \<and> BUFFER_SIZE * ((length cut_pac - unat (0 :: u32)) div BUFFER_SIZE)
                    \<le> disk_free (out_world 1000000))"
    unfolding out_b by blast
  have "length cut_pac - unat (0 :: u32) < unat (300000 :: u32)
        \<and> BUFFER_SIZE * ((length cut_pac - unat (0 :: u32)) div BUFFER_SIZE)
           \<le> disk_free (out_world 1000000)"
    using cut_pac_short by (simp only: cut_pac_floor out_world_room) simp
  with c have r: "unat (dataSizeRead t)
               = BUFFER_SIZE * ((length cut_pac - unat (0 :: u32)) div BUFFER_SIZE)"
      "length cut_pac - fpos t < min (unat (dataSizeLeft t)) BUFFER_SIZE"
      "extractPartition lp64 cut_pac big_record ''out'' (out_world 1000000)
                 = (Inl (Exit_failure ''Error while reading partition data''), wld t)"
    by blast+
  from r(1) have r1: "unat (dataSizeRead t) = 262144" by (simp only: cut_pac_floor)
  from r(3) cut_extract have r4: "wld t = wld (big_second 1000000)" by simp
  from t r1 r(2,3) r4 [unfolded second]
  have A: "\<exists>t. iterates cut_pac ''out/b'' 300000
               (stream_start ''out/b'' 300000 0 (big_opened 1000000)) t
          \<and> 0 < dataSizeLeft t
          \<and> files (wld t) ''out/b''
               = Some (take (unat (dataSizeRead t))
                         (take (unat (300000 :: u32)) (drop (unat (0 :: u32)) cut_pac)))
          \<and> unat (dataSizeRead t) = 262144
          \<and> length cut_pac - fpos t < min (unat (dataSizeLeft t)) BUFFER_SIZE
          \<and> extractPartition lp64 cut_pac big_record ''out'' (out_world 1000000)
               = (Inl (Exit_failure ''Error while reading partition data''), wld t)
          \<and> wld t = \<lparr>files = [''out/b'' \<mapsto> replicate 262144 7], dirs = {''out''},
                       disk_free = 737856,
                       stdout = [Extracting ''out/b'', Progress 262144 300000]\<rparr>"
    by blast
  from short_transfer_is_fatal [OF big_record_size nz big_record_addr malloc_buffer_lp64
      big_record_fileName out_b_removed out_b_opened short_write]
  obtain u where
    u: "iterates big_pac ''out/b'' 300000
          (stream_start ''out/b'' 300000 0 (big_opened 270000)) u"
      "0 < dataSizeLeft u"
      "files (wld u) ''out/b''
         = Some (take (unat (dataSizeRead u))
                   (take (unat (300000 :: u32)) (drop (unat (0 :: u32)) big_pac)))"
    and d: "length big_pac - unat (0 :: u32) < unat (300000 :: u32)
            \<or> (unat (dataSizeRead u)
                  = BUFFER_SIZE * (disk_free (out_world 270000) div BUFFER_SIZE)
               \<and> min (unat (dataSizeLeft u)) BUFFER_SIZE \<le> length big_pac - fpos u
               \<and> disk_free (wld u) < min (unat (dataSizeLeft u)) BUFFER_SIZE
               \<and> extractPartition lp64 big_pac big_record ''out'' (out_world 270000)
                   = (Inl (Exit_failure ''Error while writing partition data''),
                      (wld u)\<lparr>files := (files (wld u))
                                (''out/b'' \<mapsto>
                                   take (disk_free (out_world 270000))
                                     (take (unat (300000 :: u32))
                                        (drop (unat (0 :: u32)) big_pac))),
                              disk_free := 0\<rparr>))"
    unfolding out_b by blast
  from d big_pac_full have q: "unat (dataSizeRead u)
                  = BUFFER_SIZE * (disk_free (out_world 270000) div BUFFER_SIZE)"
      "min (unat (dataSizeLeft u)) BUFFER_SIZE \<le> length big_pac - fpos u"
      "disk_free (wld u) < min (unat (dataSizeLeft u)) BUFFER_SIZE"
      "extractPartition lp64 big_pac big_record ''out'' (out_world 270000)
                   = (Inl (Exit_failure ''Error while writing partition data''),
                      (wld u)\<lparr>files := (files (wld u))
                                (''out/b'' \<mapsto>
                                   take (disk_free (out_world 270000))
                                     (take (unat (300000 :: u32))
                                        (drop (unat (0 :: u32)) big_pac))),
                              disk_free := 0\<rparr>)"
    by blast+
  from q(1) have q1: "unat (dataSizeRead u) = 262144"
    by (simp only: out_world_room tight_floor)
  from u q1 q(2,3) q(4) [unfolded out_world_room]
  have B: "\<exists>t. iterates big_pac ''out/b'' 300000
               (stream_start ''out/b'' 300000 0 (big_opened 270000)) t
          \<and> 0 < dataSizeLeft t
          \<and> files (wld t) ''out/b''
               = Some (take (unat (dataSizeRead t))
                         (take (unat (300000 :: u32)) (drop (unat (0 :: u32)) big_pac)))
          \<and> unat (dataSizeRead t) = 262144
          \<and> min (unat (dataSizeLeft t)) BUFFER_SIZE \<le> length big_pac - fpos t
          \<and> disk_free (wld t) < min (unat (dataSizeLeft t)) BUFFER_SIZE
          \<and> extractPartition lp64 big_pac big_record ''out'' (out_world 270000)
               = (Inl (Exit_failure ''Error while writing partition data''),
                  (wld t)\<lparr>files := (files (wld t))
                            (''out/b'' \<mapsto>
                               take 270000
                                 (take (unat (300000 :: u32))
                                    (drop (unat (0 :: u32)) big_pac))),
                          disk_free := 0\<rparr>)"
    by blast
  from big_record_size nz big_record_addr malloc_buffer_lp64 big_record_fileName
    out_b_removed [of 1000000] out_b_opened [of 1000000] cut_pac_short A
    out_b_removed [of 270000] out_b_opened [of 270000] room B tight_extract
  show ?thesis by (intro conjI)
qed

section \<open>Properties of the driver\<close>

text \<open>
  Claim C6. The help flag is to print the usage text and exit with code 0. \<^verbatim>\<open>main\<close>
  tests \<^verbatim>\<open>argc < 5\<close> before it looks at \<^verbatim>\<open>argv[1]\<close>, so the invocation \<^verbatim>\<open>tool -h\<close>, with
  \<^verbatim>\<open>argc = 2\<close>, prints the usage text and exits with \<^verbatim>\<open>EXIT_FAILURE\<close>; the branch that
  exits with code 0 is reached only when three more arguments follow \<^verbatim>\<open>-h\<close>.
\<close>

theorem help_flag_alone_fails:
  "main e [''pacextractor'', ''-h''] w = (Inl (Exit_failure []), put Usage w)
   \<and> exit_code (fst (main e [''pacextractor'', ''-h''] w)) = Some 1
   \<and> main e [''pacextractor'', ''-h'', a, b, c] w = (Inr (), put Usage w)"
  by (simp add: main_def printUsageAndExit_def printUsage_def exit_code_def)

lemma sint_small: "n < 2 ^ 31 \<Longrightarrow> sint (word_of_nat n :: 32 word) = int n"
  by (simp add: signed_of_nat signed_take_bit_int_eq_self)

lemma to_size_t_le: "0 \<le> x \<Longrightarrow> to_size_t e x \<le> nat x"
proof -
  assume "0 \<le> x"
  then have "x mod 2 ^ (8 * ptr_size e) \<le> x" by (rule zmod_le_nonneg_dividend)
  then show ?thesis by (simp add: to_size_t_def)
qed

text \<open>
  Claim C8. When the file named after \<^verbatim>\<open>-e\<close> is shorter than the 1220 bytes of
  \<^verbatim>\<open>PacHeader\<close>, the run ends with \<^verbatim>\<open>exit(EXIT_FAILURE)\<close> and the diagnostic that the
  file is not a valid firmware (or, should \<^verbatim>\<open>fstat\<close> itself fail, with that
  diagnostic), and the world is unchanged: the size test comes before
  \<^verbatim>\<open>createOutputDirectory\<close>, so no directory has been made.
\<close>

theorem short_container_rejected:
  assumes "files w firmwarePath = Some pac" and "length pac < sizeof_PacHeader"
    and "5 \<le> length argv" and "argv ! 1 = ''-e''" and "argv ! 2 = firmwarePath"
    and "argv ! 3 = ''-o''"
  shows "main e argv w =
           (Inl (Exit_failure (if fstat_ok e
                               then ''File '' @ firmwarePath @ '' is not a valid firmware''
                               else ''Error getting file stats'')), w)
         \<and> dirs (snd (main e argv w)) = dirs w"
proof -
  from assms(2) have small: "length pac < 1220" by (simp add: sizeof_PacHeader_def)
  then have "sint (word_of_nat (length pac) :: 32 word) = int (length pac)"
    by (intro sint_small) simp
  moreover have "to_size_t e (int (length pac)) \<le> nat (int (length pac))"
    by (rule to_size_t_le) simp
  ultimately have "to_size_t e (sint (word_of_nat (length pac) :: 32 word)) < sizeof_PacHeader"
    using assms(2) by simp
  then have "main_extract e firmwarePath (argv ! 4) w =
           (Inl (Exit_failure (if fstat_ok e
                               then ''File '' @ firmwarePath @ '' is not a valid firmware''
                               else ''Error getting file stats'')), w)"
    using assms(1) by (simp add: main_extract_def Let_def)
  then show ?thesis using assms(3-6) by (simp add: main_def)
qed

theorem short_container_rejected_witness:
  "files tiny_container ''fw.pac'' = Some [1, 2, 3]
   \<and> length [1, 2, 3 :: byte] < sizeof_PacHeader
   \<and> main lp64 [''pacextractor'', ''-e'', ''fw.pac'', ''-o'', ''out''] tiny_container
       = (Inl (Exit_failure ''File fw.pac is not a valid firmware''), tiny_container)
   \<and> dirs (snd (main lp64 [''pacextractor'', ''-e'', ''fw.pac'', ''-o'', ''out''] tiny_container))
       = {}"
proof -
  have a: "files tiny_container ''fw.pac'' = Some [1, 2, 3]" by (simp add: tiny_container_def)
  have b: "length [1, 2, 3 :: byte] < sizeof_PacHeader" by (simp add: sizeof_PacHeader_def)
  note t = short_container_rejected [OF a b,
      of "[''pacextractor'', ''-e'', ''fw.pac'', ''-o'', ''out'']" lp64]
  have c: "fstat_ok lp64" by (simp add: lp64_def)
  have d: "dirs tiny_container = {}" by (simp add: tiny_container_def)
  from a b t c d show ?thesis by simp
qed

section \<open>The partition count\<close>

lemma nch_length: "length negative_count_header = 1220"
  by (simp add: negative_count_header_def)

lemma nch_read: "readPacHeader negative_count_header = Inr negative_count_header"
  by (simp add: readPacHeader_def fd_read_def sizeof_PacHeader_def nch_length)

lemma nch_name: "call_getString 256 (pac_firmwareName negative_count_header) = Inr []"
  by (simp add: negative_count_header_def pac_firmwareName_def call_getString_def getString_def
      c_str_def)

lemma nch_start: "pac_partitionsListStart negative_count_header = Some 0"
  by (simp add: negative_count_header_def pac_partitionsListStart_def read_u32_def)

lemma nch_count: "pac_partitionCount negative_count_header = Some 0xC0000000"
  by (simp add: negative_count_header_def pac_partitionCount_def read_u32_def)

lemma alloc0: "headers_alloc_size ilp32 (- 1073741824) = 0"
  by (simp add: headers_alloc_size_def to_size_t_def ilp32_def)

lemma mk_out: "createOutputDirectory ilp32 ''out'' negative_count_world
    = Inr (negative_count_world\<lparr>dirs := {''out''}\<rparr>)"
  by (simp add: createOutputDirectory_def make_dir_def ilp32_def negative_count_world_def)


lemma read_headers_bound:
  assumes "read_headers e allocated pac n i curPos hs w = (r, w')"
  shows "\<exists>evs. stdout w' = stdout w @ evs \<and> length evs \<le> nat (n - i)
           \<and> (\<forall>res. r = Inr res \<longrightarrow> length res = length hs + nat (n - i))"
  using assms
proof (induction e allocated pac n i curPos hs w rule: read_headers.induct)
  case (1 e allocated pac n i curPos hs w)
  have stop: ?case if "r = Inl a" "w' = w" for a
  proof -
    from that have "stdout w' = stdout w @ [] \<and> length ([] :: event list) \<le> nat (n - i)
           \<and> (\<forall>res. r = Inr res \<longrightarrow> length res = length hs + nat (n - i))" by simp
    then show ?thesis by blast
  qed
  show ?case
  proof (cases "i < n")
    case False
    with "1.prems" have "r = Inr hs" "w' = w" by (simp_all add: read_headers_done)
    with False have "stdout w' = stdout w @ [] \<and> length ([] :: event list) \<le> nat (n - i)
           \<and> (\<forall>res. r = Inr res \<longrightarrow> length res = length hs + nat (n - i))" by simp
    then show ?thesis by blast
  next
    case True
    note unf = "1.prems" [unfolded read_headers.simps [of e allocated pac n i curPos hs w]]
    show ?thesis
    proof (cases "readPartitionHeader e pac curPos")
      case (Inl a)
      with unf True show ?thesis by (intro stop [of a]) simp_all
    next
      case (Inr p)
      obtain header curPos' where p: "p = (header, curPos')" by (cases p)
      show ?thesis
      proof (cases "allocated < (nat i + 1) * ptr_size e")
        case True
        with unf \<open>i < n\<close> Inr p show ?thesis by (intro stop [of Undefined]) simp_all
      next
        case room: False
      show ?thesis
      proof (cases "call_getString 256 (ph_partitionName header)")
        case (Inl a)
        with unf True Inr p room show ?thesis by (intro stop [of a]) simp_all
      next
        case pn: (Inr partitionName)
        show ?thesis
        proof (cases "call_getString 512 (ph_fileName header)")
          case (Inl a)
          with unf True Inr p room pn show ?thesis by (intro stop [of a]) simp_all
        next
          case fn: (Inr fileName)
          show ?thesis
          proof (cases "ph_partitionSize header")
            case None
            with unf True Inr p room pn fn show ?thesis by (intro stop [of Undefined]) simp_all
          next
            case (Some sz)
            let ?w1 = "put (Partition_info partitionName fileName sz) w"
            from unf True Inr p room pn fn Some
            have run: "read_headers e allocated pac n (i + 1) curPos' (hs @ [header]) ?w1 = (r, w')"
              by simp
            from "1.IH" [OF True Inr p [symmetric] room pn fn Some run]
            obtain evs where
              a: "stdout w' = stdout ?w1 @ evs" and
              b: "length evs \<le> nat (n - (i + 1))" and
              c: "\<forall>res. r = Inr res \<longrightarrow> length res = length (hs @ [header]) + nat (n - (i + 1))"
              by blast
            let ?evs = "Partition_info partitionName fileName sz # evs"
            from a have "stdout w' = stdout w @ ?evs" by (simp add: put_def)
            moreover from b True have "length ?evs \<le> nat (n - i)" by simp
            moreover from c True have
              "\<forall>res. r = Inr res \<longrightarrow> length res = length hs + nat (n - i)" by auto
            ultimately show ?thesis by blast
          qed
        qed
      qed
      qed
    qed
  qed
qed

lemma alloc_size_negative_64:
  assumes "ptr_size e = 8" and "c < 0" and "- (2 ^ 31) \<le> c"
  shows "2 ^ 63 \<le> headers_alloc_size e c"
proof -
  define k where "k = nat (- c)"
  have k: "0 < k" "k \<le> 2 ^ 31" "c = - int k" using assms by (simp_all add: k_def)
  have "c mod 2 ^ 64 = c + 2 ^ 64"
    using assms(2,3) by (simp add: k(3) zmod_zminus1_eq_if)
  then have t: "to_size_t e c = 2 ^ 64 - k"
    using k by (simp add: to_size_t_def assms(1) nat_diff_distrib')
  have "(2 ^ 64 - k) * 8 = (2 ^ 64 - 8 * k) + 7 * 2 ^ 64" using k(2) by simp
  then have "((2 ^ 64 - k) * 8) mod 2 ^ 64 = (2 ^ 64 - 8 * k) mod 2 ^ 64"
    by (simp only: mod_mult_self1 mod_mult_self2)
  also have "\<dots> = 2 ^ 64 - 8 * k" using k(1) by simp
  finally have "headers_alloc_size e c = 2 ^ 64 - 8 * k"
    by (simp add: headers_alloc_size_def t assms(1))
  then show ?thesis using k(2) by simp
qed


lemma read_headers_negative:
  "partitionCount \<le> 0 \<Longrightarrow>
   read_headers e allocated pac partitionCount 0 curPos [] w = (Inr [], w)"
  by (simp add: read_headers_done)

lemma main_extract_past_header:
  assumes "files w firmwarePath = Some pac" and "fstat_ok e"
    and "\<not> to_size_t e (sint (word_of_nat (length pac) :: 32 word)) < sizeof_PacHeader"
    and "createOutputDirectory e outputPath w = Inr w1"
    and "readPacHeader pac = Inr pacHeader"
    and "call_getString 256 (pac_firmwareName pacHeader) = Inr firmwareName"
    and "pac_partitionsListStart pacHeader = Some curPos"
    and "pac_partitionCount pacHeader = Some count"
  shows "main_extract e firmwarePath outputPath w =
     (if \<not> malloc_ok e (headers_alloc_size e (sint count))
      then (Inl (Exit_failure ''Memory allocation failed for partition headers''),
            put (Firmware_name firmwareName) w1)
      else (case read_headers e (headers_alloc_size e (sint count)) pac (sint count) 0 curPos []
                   (put (Firmware_name firmwareName) w1) of
              (Inl a, w3) \<Rightarrow> (Inl a, w3)
            | (Inr partHeaders, w3) \<Rightarrow> extract_headers e pac outputPath partHeaders w3))"
  using assms by (simp add: main_extract_def Let_def)


text \<open>
  What the two loops of the driver can print and how they can fail: the record walk is
  the only place that prints a partition record, and the diagnostic of the failed
  allocation of \<^verbatim>\<open>partHeaders\<close> is printed nowhere else.
\<close>

lemma readPartitionHeader_diag:
  "readPartitionHeader e pac curPos = Inl a \<Longrightarrow>
   a \<noteq> Exit_failure ''Memory allocation failed for partition headers''"
  by (auto simp: readPartitionHeader_def Let_def split: option.splits if_splits)

lemma call_getString_Inl: "call_getString cap mem = Inl a \<Longrightarrow> a = Undefined"
  by (auto simp: call_getString_def split: option.splits if_splits)

lemma read_headers_diag:
  "read_headers e allocated pac n i curPos hs w = (Inl a, w') \<Longrightarrow>
   a \<noteq> Exit_failure ''Memory allocation failed for partition headers''"
proof (induction e allocated pac n i curPos hs w rule: read_headers.induct)
  case (1 e allocated pac n i curPos hs w)
  note unf = "1.prems" [unfolded read_headers.simps [of e allocated pac n i curPos hs w]]
  show ?case
  proof (cases "i < n")
    case False
    with unf show ?thesis by simp
  next
    case True
    show ?thesis
    proof (cases "readPartitionHeader e pac curPos")
      case (Inl b)
      with unf True have "a = b" by simp
      with readPartitionHeader_diag [OF Inl] show ?thesis by simp
    next
      case (Inr p)
      obtain header curPos' where p: "p = (header, curPos')" by (cases p)
      show ?thesis
      proof (cases "allocated < (nat i + 1) * ptr_size e")
        case True
        with unf \<open>i < n\<close> Inr p show ?thesis by simp
      next
        case room: False
        show ?thesis
        proof (cases "call_getString 256 (ph_partitionName header)")
          case (Inl b)
          with unf True Inr p room call_getString_Inl [OF Inl] show ?thesis by simp
        next
          case pn: (Inr partitionName)
          show ?thesis
          proof (cases "call_getString 512 (ph_fileName header)")
            case (Inl b)
            with unf True Inr p room pn call_getString_Inl [OF Inl] show ?thesis by simp
          next
            case fn: (Inr fileName)
            show ?thesis
            proof (cases "ph_partitionSize header")
              case None
              with unf True Inr p room pn fn show ?thesis by simp
            next
              case (Some sz)
              from unf True Inr p room pn fn Some
              have run: "read_headers e allocated pac n (i + 1) curPos' (hs @ [header])
                  (put (Partition_info partitionName fileName sz) w) = (Inl a, w')"
                by simp
              from "1.IH" [OF True Inr p [symmetric] room pn fn Some run] show ?thesis .
            qed
          qed
        qed
      qed
    qed
  qed
qed

lemma copy_loop_stdout:
  "copy_loop pac path n s = (r, w') \<Longrightarrow>
   (\<exists>cs. stdout w' = stdout (wld s) @ map (\<lambda>c. Progress c n) cs)
   \<and> (\<forall>a. r = Inl a \<longrightarrow> a = Exit_failure ''Error while reading partition data''
                         \<or> a = Exit_failure ''Error while writing partition data'')"
proof (induction pac path n s rule: copy_loop.induct)
  case (1 pac path n s)
  show ?case
  proof (cases "0 < dataSizeLeft s")
    case False
    with "1.prems" have "w' = wld s" "r = Inr ()" by (simp_all add: copy_loop_done)
    then have "stdout w' = stdout (wld s) @ map (\<lambda>c. Progress c n) []" by simp
    with \<open>r = Inr ()\<close> show ?thesis by blast
  next
    case True
    show ?thesis
    proof (cases "copy_step pac path n s")
      case (Inl p)
      obtain a w1 where p: "p = (a, w1)" by (cases p)
      from copy_loop_Inl [OF True Inl [unfolded p]] "1.prems"
      have r: "r = Inl a" "w' = w1" by simp_all
      from copy_step_Inl [OF Inl [unfolded p]]
      have "stdout w1 = stdout (wld s)"
        and "a = Exit_failure ''Error while reading partition data''
             \<or> a = Exit_failure ''Error while writing partition data''"
        by auto
      with r have "stdout w' = stdout (wld s) @ map (\<lambda>c. Progress c n) []" 
        and "\<forall>b. r = Inl b \<longrightarrow> b = Exit_failure ''Error while reading partition data''
                         \<or> b = Exit_failure ''Error while writing partition data''"
        by simp_all
      then show ?thesis by blast
    next
      case (Inr s')
      from copy_loop_Inr [OF True Inr] "1.prems"
      have run: "copy_loop pac path n s' = (r, w')" by simp
      from "1.IH" [OF True Inr run] obtain cs where
        a: "stdout w' = stdout (wld s') @ map (\<lambda>c. Progress c n) cs"
        and b: "\<forall>a. r = Inl a \<longrightarrow> a = Exit_failure ''Error while reading partition data''
                         \<or> a = Exit_failure ''Error while writing partition data''"
        by blast
      have "stdout (wld s') = stdout (wld s) @ [Progress (dataSizeRead s') n]"
        using copy_step_Inr [OF Inr] by simp
      with a have "stdout w' = stdout (wld s) @ map (\<lambda>c. Progress c n) (dataSizeRead s' # cs)"
        by simp
      with b show ?thesis by blast
    qed
  qed
qed


lemma records_printed_append:
  "records_printed (xs @ ys) = records_printed xs + records_printed ys"
  by (simp add: records_printed_def)

lemma records_printed_progress: "records_printed (map (\<lambda>c. Progress c n) cs) = 0"
  by (induction cs) (simp_all add: records_printed_def)

lemma records_printed_le: "records_printed evs \<le> length evs"
  by (simp add: records_printed_def)

lemma remove_file_stdout: "remove_file e p w = Some w1 \<Longrightarrow> stdout w1 = stdout w"
  by (auto simp: remove_file_def split: if_splits)

lemma open_new_stdout: "open_new e p w = Some w1 \<Longrightarrow> stdout w1 = stdout w"
  by (auto simp: open_new_def split: if_splits)

lemma extractPartition_out:
  assumes "extractPartition e pac partHeader outputPath w = (r, w')"
  shows "records_printed (stdout w') = records_printed (stdout w)"
    and "r \<noteq> Inl (Exit_failure ''Memory allocation failed for partition headers'')"
proof -
  note unf = assms [unfolded extractPartition_def]
  have "records_printed (stdout w') = records_printed (stdout w)
      \<and> r \<noteq> Inl (Exit_failure ''Memory allocation failed for partition headers'')"
  proof (cases "ph_partitionSize partHeader")
    case None
    with unf show ?thesis by auto
  next
    case (Some partitionSize)
    show ?thesis
    proof (cases "partitionSize = 0")
      case True
      with unf Some show ?thesis by auto
    next
      case nz: False
      show ?thesis
      proof (cases "ph_partitionAddrInPac partHeader")
        case None
        with unf Some nz show ?thesis by auto
      next
        case addr: (Some addr)
        show ?thesis
        proof (cases "malloc_ok e BUFFER_SIZE")
          case False
          with unf Some nz addr show ?thesis by auto
        next
          case m: True
          show ?thesis
          proof (cases "call_getString 512 (ph_fileName partHeader)")
            case (Inl a)
            with unf Some nz addr m call_getString_Inl [OF Inl] show ?thesis by auto
          next
            case fn: (Inr fileName)
            let ?p = "output_file outputPath fileName"
            show ?thesis
            proof (cases "remove_file e ?p w")
              case None
              with unf Some nz addr m fn show ?thesis by (auto simp: Let_def)
            next
              case rm: (Some w1)
              show ?thesis
              proof (cases "open_new e ?p w1")
                case None
                with unf Some nz addr m fn rm remove_file_stdout [OF rm] show ?thesis
                  by (auto simp: Let_def)
              next
                case op: (Some w2)
                obtain r3 w3 where cl: "copy_loop pac ?p partitionSize
                    (stream_start ?p partitionSize addr w2) = (r3, w3)"
                  by (cases "copy_loop pac ?p partitionSize
                    (stream_start ?p partitionSize addr w2)")
                from copy_loop_stdout [OF cl] obtain cs where
                  a: "stdout w3 = stdout (wld (stream_start ?p partitionSize addr w2))
                        @ map (\<lambda>c. Progress c partitionSize) cs"
                  and b: "\<forall>a. r3 = Inl a \<longrightarrow> a = Exit_failure ''Error while reading partition data''
                         \<or> a = Exit_failure ''Error while writing partition data''"
                  by blast
                have "stdout (wld (stream_start ?p partitionSize addr w2))
                    = stdout w @ [Extracting ?p]"
                  using remove_file_stdout [OF rm] open_new_stdout [OF op]
                  by (simp add: stream_start_def put_def)
                with a have c: "records_printed (stdout w3) = records_printed (stdout w)"
                  by (simp add: records_printed_append records_printed_progress)
                    (simp add: records_printed_def)
                from extractPartition_stream [OF Some nz addr m fn rm op, of pac] assms cl
                have res: "(r, w') = (case (r3, w3) of (Inl a, w3) \<Rightarrow> (Inl a, w3)
                     | (Inr u, w3) \<Rightarrow> (Inr (), put Newline w3))"
                  by simp
                show ?thesis
                proof (cases r3)
                  case (Inl a)
                  with res have "r = Inl a" "w' = w3" by simp_all
                  with b Inl c show ?thesis by auto
                next
                  case (Inr u)
                  with res have "r = Inr ()" "w' = put Newline w3" by simp_all
                  with c show ?thesis
                    by (simp add: put_def records_printed_append) (simp add: records_printed_def)
                qed
              qed
            qed
          qed
        qed
      qed
    qed
  qed
  then show "records_printed (stdout w') = records_printed (stdout w)"
    and "r \<noteq> Inl (Exit_failure ''Memory allocation failed for partition headers'')"
    by simp_all
qed

lemma extract_headers_out:
  "extract_headers e pac outputPath partHeaders w = (r, w') \<Longrightarrow>
   records_printed (stdout w') = records_printed (stdout w)
   \<and> r \<noteq> Inl (Exit_failure ''Memory allocation failed for partition headers'')"
proof (induction partHeaders arbitrary: w)
  case Nil
  then show ?case by auto
next
  case (Cons partHeader rest)
  obtain r1 w1 where x: "extractPartition e pac partHeader outputPath w = (r1, w1)"
    by (cases "extractPartition e pac partHeader outputPath w")
  note o = extractPartition_out [OF x]
  show ?case
  proof (cases r1)
    case (Inl a)
    with Cons.prems x have "r = Inl a" "w' = w1" by simp_all
    with o Inl show ?thesis by simp
  next
    case (Inr u)
    with Cons.prems x have "extract_headers e pac outputPath rest w1 = (r, w')" by simp
    from Cons.IH [OF this] o(1) show ?thesis by simp
  qed
qed

lemma make_dir_stdout: "make_dir e temp w = Inr w1 \<Longrightarrow> stdout w1 = stdout w"
  by (auto simp: make_dir_def split: if_splits)

lemma make_prefixes_stdout: "make_prefixes e pre cs w = Inr w1 \<Longrightarrow> stdout w1 = stdout w"
proof (induction cs arbitrary: pre w)
  case Nil
  then show ?case by simp
next
  case (Cons c cs)
  show ?case
  proof (cases "c = CHR ''/''")
    case False
    with Cons.prems have "make_prefixes e (pre @ [c]) cs w = Inr w1" by simp
    from Cons.IH [OF this] show ?thesis .
  next
    case True
    show ?thesis
    proof (cases "make_dir e pre w")
      case (Inl a)
      with Cons.prems True show ?thesis by simp
    next
      case (Inr w0)
      with Cons.prems True have "make_prefixes e (pre @ [c]) cs w0 = Inr w1" by simp
      from Cons.IH [OF this] make_dir_stdout [OF Inr] show ?thesis by simp
    qed
  qed
qed

lemma createOutputDirectory_stdout:
  "createOutputDirectory e path w = Inr w1 \<Longrightarrow> stdout w1 = stdout w"
proof -
  assume a: "createOutputDirectory e path w = Inr w1"
  then obtain w0 where p: "make_prefixes e [] path w = Inr w0" and d: "make_dir e path w0 = Inr w1"
    by (auto simp: createOutputDirectory_def split: if_splits sum.splits)
  from make_prefixes_stdout [OF p] make_dir_stdout [OF d] show ?thesis by simp
qed

text \<open>
  Claim C5, as stated, fails: on a platform with 32-bit \<^verbatim>\<open>size_t\<close> a header whose
  \<^verbatim>\<open>partitionCount\<close> is \<open>- 2 ^ 30\<close> is not rejected. The allocation size
  \<^verbatim>\<open>partitionCount * sizeof(PartitionHeader*)\<close> wraps to 0, the allocation succeeds, both
  loops run zero times and the run ends with \<^verbatim>\<open>EXIT_SUCCESS\<close>.
\<close>

theorem negative_count_not_rejected:
  "pac_partitionCount negative_count_header = Some 0xC0000000
   \<and> sint (0xC0000000 :: 32 word) = - 1073741824
   \<and> main ilp32 [''pacextractor'', ''-e'', ''fw.pac'', ''-o'', ''out''] negative_count_world
       = (Inr (), \<lparr>files = [''fw.pac'' \<mapsto> negative_count_header], dirs = {''out''},
                   disk_free = 1000, stdout = [Firmware_name []]\<rparr>)"
proof -
  have a: "files negative_count_world ''fw.pac'' = Some negative_count_header"
    by (simp add: negative_count_world_def)
  have b: "fstat_ok ilp32" by (simp add: ilp32_def)
  have c: "\<not> to_size_t ilp32 (sint (word_of_nat (length negative_count_header) :: 32 word))
      < sizeof_PacHeader"
    by (simp add: nch_length to_size_t_def ilp32_def sizeof_PacHeader_def)
  have d: "malloc_ok ilp32 (headers_alloc_size ilp32 (sint (0xC0000000 :: 32 word)))"
    by (simp add: alloc0) (simp add: ilp32_def)
  have e: "read_headers ilp32 al negative_count_header (- 1073741824) 0 0 [] w = (Inr [], w)"
    for al w
    by (rule read_headers_negative) simp
  have "main_extract ilp32 ''fw.pac'' ''out'' negative_count_world
       = (Inr (), \<lparr>files = [''fw.pac'' \<mapsto> negative_count_header], dirs = {''out''},
                   disk_free = 1000, stdout = [Firmware_name []]\<rparr>)"
    unfolding main_extract_past_header [OF a b c mk_out nch_read nch_name nch_start nch_count]
    using d by (simp add: e put_def negative_count_world_def)
  then show ?thesis by (simp add: main_def nch_count)
qed


text \<open>
  Claim C5, amended. The driver does not test the sign of \<^verbatim>\<open>partitionCount\<close>. Once the
  header is read it asks \<^verbatim>\<open>malloc\<close> for \<^verbatim>\<open>partitionCount * sizeof(PartitionHeader*)\<close>
  bytes, the product taken in \<^verbatim>\<open>size_t\<close>. If that allocation fails, the run fails there,
  before any record is read, with the diagnostic of that allocation. With a 64-bit
  \<^verbatim>\<open>size_t\<close> and a \<^verbatim>\<open>malloc\<close> that refuses \<open>2 ^ 63\<close> bytes and more, this is the case for
  every negative count. If the allocation succeeds, the run is the record walk with the
  header's count from the header's list start, followed, when the walk succeeds, by the
  extraction of the records it collected; it never ends with the diagnostic of that
  allocation; and with a negative count no record is read or extracted and the run
  ends with \<^verbatim>\<open>EXIT_SUCCESS\<close>. The record walk prints at most \<open>max 0 partitionCount\<close>
  records and, when it succeeds, has collected exactly that many; the whole run prints
  at most \<open>max 0 partitionCount\<close> records.
\<close>

theorem partition_count_handling:
  assumes "files w firmwarePath = Some pac" and "fstat_ok e"
    and "\<not> to_size_t e (sint (word_of_nat (length pac) :: 32 word)) < sizeof_PacHeader"
    and "createOutputDirectory e outputPath w = Inr w1"
    and "readPacHeader pac = Inr pacHeader"
    and "call_getString 256 (pac_firmwareName pacHeader) = Inr firmwareName"
    and "pac_partitionsListStart pacHeader = Some curPos"
    and "pac_partitionCount pacHeader = Some count"
  shows "(\<not> malloc_ok e (headers_alloc_size e (sint count)) \<longrightarrow>
            main_extract e firmwarePath outputPath w =
              (Inl (Exit_failure ''Memory allocation failed for partition headers''),
               put (Firmware_name firmwareName) w1))
       \<and> (ptr_size e = 8 \<and> (\<forall>n. 2 ^ 63 \<le> n \<longrightarrow> \<not> malloc_ok e n) \<and> sint count < 0 \<longrightarrow>
            main_extract e firmwarePath outputPath w =
              (Inl (Exit_failure ''Memory allocation failed for partition headers''),
               put (Firmware_name firmwareName) w1))
       \<and> (malloc_ok e (headers_alloc_size e (sint count)) \<and> sint count < 0 \<longrightarrow>
            main_extract e firmwarePath outputPath w =
              (Inr (), put (Firmware_name firmwareName) w1))
       \<and> (\<forall>allocated r w'. read_headers e allocated pac (sint count) 0 curPos []
                    (put (Firmware_name firmwareName) w1) = (r, w') \<longrightarrow>
            (\<exists>evs. stdout w' = stdout (put (Firmware_name firmwareName) w1) @ evs
               \<and> length evs \<le> nat (sint count)
               \<and> (\<forall>partHeaders. r = Inr partHeaders \<longrightarrow>
                     length partHeaders = nat (sint count))))
       \<and> (malloc_ok e (headers_alloc_size e (sint count)) \<longrightarrow>
            main_extract e firmwarePath outputPath w =
              (case read_headers e (headers_alloc_size e (sint count)) pac (sint count) 0
                      curPos [] (put (Firmware_name firmwareName) w1) of
                 (Inl a, w3) \<Rightarrow> (Inl a, w3)
               | (Inr partHeaders, w3) \<Rightarrow> extract_headers e pac outputPath partHeaders w3)
            \<and> fst (main_extract e firmwarePath outputPath w)
                \<noteq> Inl (Exit_failure ''Memory allocation failed for partition headers''))
       \<and> (\<forall>r w'. main_extract e firmwarePath outputPath w = (r, w') \<longrightarrow>
            records_printed (stdout w') \<le> records_printed (stdout w) + nat (sint count))"
proof -
  let ?w2 = "put (Firmware_name firmwareName) w1"
  let ?al = "headers_alloc_size e (sint count)"
  note eq = main_extract_past_header [OF assms]
  have w2: "records_printed (stdout ?w2) = records_printed (stdout w)"
    using createOutputDirectory_stdout [OF assms(4)]
    by (simp add: put_def records_printed_append) (simp add: records_printed_def)
  have 1: "main_extract e firmwarePath outputPath w =
              (Inl (Exit_failure ''Memory allocation failed for partition headers''), ?w2)"
    if "\<not> malloc_ok e ?al"
    using eq that by simp
  have 2: "\<not> malloc_ok e ?al"
    if "ptr_size e = 8" "\<forall>n. 2 ^ 63 \<le> n \<longrightarrow> \<not> malloc_ok e n" "sint count < 0"
  proof -
    have "- (2 ^ 31) \<le> sint count" using sint_ge [of count] by simp
    from alloc_size_negative_64 [OF that(1) that(3) this] that(2) show ?thesis by blast
  qed
  have 3: "main_extract e firmwarePath outputPath w = (Inr (), ?w2)"
    if "malloc_ok e ?al" "sint count < 0"
    using eq that by (simp add: read_headers_negative)
  have 4: "\<exists>evs. stdout w' = stdout ?w2 @ evs
               \<and> length evs \<le> nat (sint count)
               \<and> (\<forall>partHeaders. r = Inr partHeaders \<longrightarrow>
                     length partHeaders = nat (sint count))"
    if "read_headers e allocated pac (sint count) 0 curPos [] ?w2 = (r, w')"
    for allocated r w'
    using read_headers_bound [OF that] by simp
  have 5: "main_extract e firmwarePath outputPath w =
              (case read_headers e ?al pac (sint count) 0 curPos [] ?w2 of
                 (Inl a, w3) \<Rightarrow> (Inl a, w3)
               | (Inr partHeaders, w3) \<Rightarrow> extract_headers e pac outputPath partHeaders w3)"
    if "malloc_ok e ?al"
    using eq that by simp
  obtain r2 w3 where walk: "read_headers e ?al pac (sint count) 0 curPos [] ?w2 = (r2, w3)"
    by (cases "read_headers e ?al pac (sint count) 0 curPos [] ?w2")
  from 4 [OF walk] obtain evs where
    evs: "stdout w3 = stdout ?w2 @ evs" "length evs \<le> nat (sint count)"
    by blast
  have w3: "records_printed (stdout w3) \<le> records_printed (stdout w) + nat (sint count)"
    using evs records_printed_le [of evs] w2 by (simp add: records_printed_append)
  have 67: "r \<noteq> Inl (Exit_failure ''Memory allocation failed for partition headers'')
      \<and> records_printed (stdout w') \<le> records_printed (stdout w) + nat (sint count)"
    if ok: "malloc_ok e ?al" and run: "main_extract e firmwarePath outputPath w = (r, w')"
    for r w'
  proof (cases r2)
    case (Inl a)
    with 5 [OF ok] walk run have "r = Inl a" "w' = w3" by simp_all
    with read_headers_diag [OF walk [unfolded Inl]] w3 show ?thesis by simp
  next
    case (Inr partHeaders)
    with 5 [OF ok] walk run have "extract_headers e pac outputPath partHeaders w3 = (r, w')"
      by simp
    from extract_headers_out [OF this] w3 show ?thesis by simp
  qed
  have 6: "fst (main_extract e firmwarePath outputPath w)
                \<noteq> Inl (Exit_failure ''Memory allocation failed for partition headers'')"
    if "malloc_ok e ?al"
    using 67 [OF that, of "fst (main_extract e firmwarePath outputPath w)"
        "snd (main_extract e firmwarePath outputPath w)"] by simp
  have 7: "records_printed (stdout w') \<le> records_printed (stdout w) + nat (sint count)"
    if run: "main_extract e firmwarePath outputPath w = (r, w')" for r w'
  proof (cases "malloc_ok e ?al")
    case True
    from 67 [OF True run] show ?thesis by simp
  next
    case False
    from 1 [OF False] run have "w' = ?w2" by simp
    with w2 show ?thesis by simp
  qed
  from 1 2 have 12: "main_extract e firmwarePath outputPath w =
              (Inl (Exit_failure ''Memory allocation failed for partition headers''), ?w2)"
    if "ptr_size e = 8 \<and> (\<forall>n. 2 ^ 63 \<le> n \<longrightarrow> \<not> malloc_ok e n) \<and> sint count < 0"
    using that by blast
  show ?thesis
  proof (intro conjI allI impI)
    show "main_extract e firmwarePath outputPath w =
        (Inl (Exit_failure ''Memory allocation failed for partition headers''), ?w2)"
      if "\<not> malloc_ok e ?al" using 1 [OF that] .
    show "main_extract e firmwarePath outputPath w =
        (Inl (Exit_failure ''Memory allocation failed for partition headers''), ?w2)"
      if "ptr_size e = 8 \<and> (\<forall>n. 2 ^ 63 \<le> n \<longrightarrow> \<not> malloc_ok e n) \<and> sint count < 0"
      using 12 [OF that] .
    show "main_extract e firmwarePath outputPath w = (Inr (), ?w2)"
      if "malloc_ok e ?al \<and> sint count < 0" using 3 that by blast
    show "\<exists>evs. stdout w' = stdout ?w2 @ evs
               \<and> length evs \<le> nat (sint count)
               \<and> (\<forall>partHeaders. r = Inr partHeaders \<longrightarrow>
                     length partHeaders = nat (sint count))"
      if "read_headers e allocated pac (sint count) 0 curPos [] ?w2 = (r, w')"
      for allocated r w' using 4 [OF that] .
    show "main_extract e firmwarePath outputPath w =
              (case read_headers e ?al pac (sint count) 0 curPos [] ?w2 of
                 (Inl a, w3) \<Rightarrow> (Inl a, w3)
               | (Inr partHeaders, w3) \<Rightarrow> extract_headers e pac outputPath partHeaders w3)"
      if "malloc_ok e ?al" using 5 [OF that] .
    show "fst (main_extract e firmwarePath outputPath w)
                \<noteq> Inl (Exit_failure ''Memory allocation failed for partition headers'')"
      if "malloc_ok e ?al" using 6 [OF that] .
    show "records_printed (stdout w') \<le> records_printed (stdout w) + nat (sint count)"
      if "main_extract e firmwarePath outputPath w = (r, w')" for r w'
      using 7 [OF that] .
  qed
qed
section \<open>The driver on a whole container\<close>

lemma char_of_102: "char_of (102 :: nat) = CHR ''f''"
  by code_simp

lemma length_full_header: "length full_header = 1220"
  by (simp add: full_header_def)

lemma length_two_records: "length two_records = 3136"
  by (simp add: two_records_def length_sample_record)

lemma length_full_container: "length full_container = 4356"
  by (simp add: full_container_def length_full_header length_two_records)

lemma full_readPacHeader: "readPacHeader full_container = Inr full_header"
  using fd_read_whole [of full_header two_records]
  by (simp add: readPacHeader_def full_container_def length_full_header sizeof_PacHeader_def)

lemma full_firmwareName: "call_getString 256 (pac_firmwareName full_header) = Inr ''f''"
  by (simp add: full_header_def pac_firmwareName_def call_getString_def getString_def
      char_of_102 c_str_def)

lemma full_start: "pac_partitionsListStart full_header = Some 1220"
  by (simp add: full_header_def pac_partitionsListStart_def read_u32_def)

lemma full_count: "pac_partitionCount full_header = Some 2"
  by (simp add: full_header_def pac_partitionCount_def read_u32_def)

lemma fd_read_shift: "fd_read (xs @ rest) (length xs + k) n = fd_read rest k n"
  by (simp add: fd_read_def)

lemma readPartitionHeader_shift:
  assumes "\<And>n. fd_read pac' (unat pos') n = fd_read pac (unat pos) n"
  shows "readPartitionHeader e pac' pos' =
     (case readPartitionHeader e pac pos of Inl a \<Rightarrow> Inl a
      | Inr (h, nx) \<Rightarrow> Inr (h, nx - pos + pos'))"
  by (simp add: readPartitionHeader_def assms Let_def split: option.splits)

lemma full_read_first:
  "readPartitionHeader lp64 full_container 1220
     = Inr (sample_record [0, 0, 0, 0] [0, 0, 0, 0], 2788)"
proof -
  have "fd_read full_container (unat (1220 :: u32)) n = fd_read two_records (unat (0 :: u32)) n"
    for n
    using fd_read_shift [of full_header two_records 0 n]
    by (simp add: full_container_def length_full_header)
  from readPartitionHeader_shift [OF this, of lp64] show ?thesis
    by (simp add: read_first_of_two)
qed

lemma full_read_second:
  "readPartitionHeader lp64 full_container 2788
     = Inr (sample_record [5, 0, 0, 0] [0, 0, 0, 0], 4356)"
proof -
  have "fd_read full_container (unat (2788 :: u32)) n = fd_read two_records (unat (1568 :: u32)) n"
    for n
    using fd_read_shift [of full_header two_records 1568 n]
    by (simp add: full_container_def length_full_header)
  from readPartitionHeader_shift [OF this, of lp64] show ?thesis
    by (simp add: read_second_of_two)
qed

lemma full_read_headers:
  "read_headers lp64 16 full_container 2 0 1220 [] w =
     (Inr [sample_record [0, 0, 0, 0] [0, 0, 0, 0], sample_record [5, 0, 0, 0] [0, 0, 0, 0]],
      put (Partition_info ''a'' ''b'' 5) (put (Partition_info ''a'' ''b'' 0) w))"
  apply (subst read_headers.simps)
  apply (simp add: full_read_first sample_partitionName sample_fileName sample_partitionSize
      ptr_size_lp64)
  apply (subst read_headers.simps)
  apply (simp add: full_read_second sample_partitionName sample_fileName sample_partitionSize
      ptr_size_lp64)
  apply (subst read_headers.simps)
  apply simp
  done

lemma full_first_five: "fd_read full_container 0 5 = [0, 0, 0, 0, 0]"
  by (simp add: fd_read_def full_container_def full_header_def eval_nat_numeral)


lemma full_createOutputDirectory:
  "createOutputDirectory lp64 ''out'' full_world = Inr (full_world\<lparr>dirs := {''out''}\<rparr>)"
  by (simp add: createOutputDirectory_def make_dir_def lp64_def full_world_def)

lemma full_copy_loop:
  "copy_loop full_container ''out/b'' 5
     \<lparr>dataSizeLeft = 5, dataSizeRead = 0, fpos = 0,
      wld = \<lparr>files = [''fw.pac'' \<mapsto> full_container, ''out/b'' \<mapsto> []], dirs = {''out''},
             disk_free = 1000, stdout = evs\<rparr>\<rparr>
   = (Inr (), \<lparr>files = [''fw.pac'' \<mapsto> full_container, ''out/b'' \<mapsto> [0, 0, 0, 0, 0]],
               dirs = {''out''}, disk_free = 995, stdout = evs @ [Progress 5 5]\<rparr>)"
  apply (subst copy_loop.simps)
  apply (simp add: copy_step_def BUFFER_SIZE_def full_first_five fd_write_def put_def)
  apply (subst copy_loop.simps)
  apply simp
  done

lemma full_extract_headers:
  "extract_headers lp64 full_container ''out''
     [sample_record [0, 0, 0, 0] [0, 0, 0, 0], sample_record [5, 0, 0, 0] [0, 0, 0, 0]]
     \<lparr>files = [''fw.pac'' \<mapsto> full_container], dirs = {''out''}, disk_free = 1000,
      stdout = [Firmware_name ''f'', Partition_info ''a'' ''b'' 0, Partition_info ''a'' ''b'' 5]\<rparr>
   = (Inr (), full_result)"
proof -
  let ?w = "\<lparr>files = [''fw.pac'' \<mapsto> full_container], dirs = {''out''}, disk_free = 1000,
      stdout = [Firmware_name ''f'', Partition_info ''a'' ''b'' 0, Partition_info ''a'' ''b'' 5]\<rparr>"
  have skip: "extractPartition lp64 full_container (sample_record [0, 0, 0, 0] [0, 0, 0, 0])
      ''out'' ?w = (Inr (), ?w)"
    by (simp add: extractPartition_def sample_partitionSize)
  have a: "ph_partitionSize (sample_record [5, 0, 0, 0] [0, 0, 0, 0]) = Some 5"
    by (simp add: sample_partitionSize)
  have b: "ph_partitionAddrInPac (sample_record [5, 0, 0, 0] [0, 0, 0, 0]) = Some 0"
    by (simp add: sample_partitionAddrInPac)
  have c: "remove_file lp64 (output_file ''out'' ''b'') ?w = Some ?w"
    by (simp add: remove_file_def out_b)
  have e: "open_new lp64 (output_file ''out'' ''b'') ?w
      = Some (?w\<lparr>files := (files ?w)(''out/b'' \<mapsto> [])\<rparr>)"
    by (simp add: open_new_def dir_part_def out_b lp64_def)
  have "extractPartition lp64 full_container (sample_record [5, 0, 0, 0] [0, 0, 0, 0])
      ''out'' ?w = (Inr (), full_result)"
    using extractPartition_stream [OF a _ b malloc_buffer_lp64 sample_fileName c e,
        of full_container]
    by (simp add: out_b stream_start_def put_def full_copy_loop full_result_def)
  with skip show ?thesis by simp
qed

lemma full_alloc: "headers_alloc_size lp64 (sint (2 :: 32 word)) = 16"
  by (simp add: headers_alloc_size_def to_size_t_def lp64_def)

lemma full_size:
  "\<not> to_size_t lp64 (sint (word_of_nat (length full_container) :: 32 word)) < sizeof_PacHeader"
  by (simp add: length_full_container to_size_t_def lp64_def sizeof_PacHeader_def)

lemma full_main_extract:
  "main_extract lp64 ''fw.pac'' ''out'' full_world = (Inr (), full_result)"
proof -
  have a: "files full_world ''fw.pac'' = Some full_container" by (simp add: full_world_def)
  have b: "fstat_ok lp64" by (simp add: lp64_def)
  have d: "malloc_ok lp64 16" by (simp add: lp64_def)
  show ?thesis
    unfolding main_extract_past_header [OF a b full_size full_createOutputDirectory
        full_readPacHeader full_firmwareName full_start full_count] full_alloc
    using d by (simp add: full_read_headers put_def full_world_def full_extract_headers
        del: extract_headers.simps)
qed

lemma full_main:
  "main lp64 [''pacextractor'', ''-e'', ''fw.pac'', ''-o'', ''out''] full_world
     = (Inr (), full_result)"
  by (simp add: main_def full_main_extract)

section \<open>The partition count on the sample containers\<close>

theorem partition_count_handling_witness:
  "files negative_count_world ''fw.pac'' = Some negative_count_header
   \<and> pac_partitionCount negative_count_header = Some 0xC0000000
   \<and> sint (0xC0000000 :: 32 word) < 0
   \<and> \<not> malloc_ok lp64 (headers_alloc_size lp64 (sint (0xC0000000 :: 32 word)))
   \<and> main_extract lp64 ''fw.pac'' ''out'' negative_count_world
       = (Inl (Exit_failure ''Memory allocation failed for partition headers''),
          put (Firmware_name []) (negative_count_world\<lparr>dirs := {''out''}\<rparr>))
   \<and> malloc_ok ilp32 (headers_alloc_size ilp32 (sint (0xC0000000 :: 32 word)))
   \<and> main_extract ilp32 ''fw.pac'' ''out'' negative_count_world
       = (Inr (), put (Firmware_name []) (negative_count_world\<lparr>dirs := {''out''}\<rparr>))
   \<and> (\<exists>evs. stdout (put (Firmware_name []) (negative_count_world\<lparr>dirs := {''out''}\<rparr>))
                = stdout (put (Firmware_name []) (negative_count_world\<lparr>dirs := {''out''}\<rparr>)) @ evs
          \<and> length evs \<le> nat (sint (0xC0000000 :: 32 word)))
   \<and> pac_partitionCount full_header = Some 2
   \<and> read_headers lp64 16 full_container (sint (2 :: 32 word)) 0 1220 []
         (put (Firmware_name ''f'') (full_world\<lparr>dirs := {''out''}\<rparr>))
       = (Inr [sample_record [0, 0, 0, 0] [0, 0, 0, 0], sample_record [5, 0, 0, 0] [0, 0, 0, 0]],
          put (Partition_info ''a'' ''b'' 5) (put (Partition_info ''a'' ''b'' 0)
            (put (Firmware_name ''f'') (full_world\<lparr>dirs := {''out''}\<rparr>))))
   \<and> (\<exists>evs. stdout (put (Partition_info ''a'' ''b'' 5) (put (Partition_info ''a'' ''b'' 0)
              (put (Firmware_name ''f'') (full_world\<lparr>dirs := {''out''}\<rparr>))))
            = stdout (put (Firmware_name ''f'') (full_world\<lparr>dirs := {''out''}\<rparr>)) @ evs
          \<and> length evs \<le> nat (sint (2 :: 32 word))
          \<and> length [sample_record [0, 0, 0, 0] [0, 0, 0, 0], sample_record [5, 0, 0, 0] [0, 0, 0, 0]]
              = nat (sint (2 :: 32 word)))
   \<and> malloc_ok lp64 (headers_alloc_size lp64 (sint (2 :: 32 word)))
   \<and> main_extract lp64 ''fw.pac'' ''out'' full_world
       = (case read_headers lp64 (headers_alloc_size lp64 (sint (2 :: 32 word))) full_container
                 (sint (2 :: 32 word)) 0 1220 []
                 (put (Firmware_name ''f'') (full_world\<lparr>dirs := {''out''}\<rparr>)) of
            (Inl a, w3) \<Rightarrow> (Inl a, w3)
          | (Inr partHeaders, w3) \<Rightarrow> extract_headers lp64 full_container ''out'' partHeaders w3)
   \<and> main_extract lp64 ''fw.pac'' ''out'' full_world = (Inr (), full_result)
   \<and> fst (main_extract lp64 ''fw.pac'' ''out'' full_world)
       \<noteq> Inl (Exit_failure ''Memory allocation failed for partition headers'')
   \<and> records_printed (stdout full_result) = 2
   \<and> records_printed (stdout full_result)
       \<le> records_printed (stdout full_world) + nat (sint (2 :: 32 word))"
proof -
  let ?W = "put (Firmware_name []) (negative_count_world\<lparr>dirs := {''out''}\<rparr>)"
  have a: "files negative_count_world ''fw.pac'' = Some negative_count_header"
    by (simp add: negative_count_world_def)
  have neg: "sint (0xC0000000 :: 32 word) < 0" by simp
  have b64: "fstat_ok lp64" by (simp add: lp64_def)
  have c64: "\<not> to_size_t lp64 (sint (word_of_nat (length negative_count_header) :: 32 word))
      < sizeof_PacHeader"
    by (simp add: nch_length to_size_t_def lp64_def sizeof_PacHeader_def)
  have d64: "createOutputDirectory lp64 ''out'' negative_count_world
      = Inr (negative_count_world\<lparr>dirs := {''out''}\<rparr>)"
    by (simp add: createOutputDirectory_def make_dir_def lp64_def negative_count_world_def)
  have p64: "ptr_size lp64 = 8" by (simp add: lp64_def)
  have m64: "\<forall>n. 2 ^ 63 \<le> n \<longrightarrow> \<not> malloc_ok lp64 n" by (simp add: lp64_def)
  note t64 = partition_count_handling [OF a b64 c64 d64 nch_read nch_name nch_start nch_count]
  from t64 p64 m64 neg have r64: "main_extract lp64 ''fw.pac'' ''out'' negative_count_world
       = (Inl (Exit_failure ''Memory allocation failed for partition headers''), ?W)"
    by blast
  have n64: "\<not> malloc_ok lp64 (headers_alloc_size lp64 (sint (0xC0000000 :: 32 word)))"
    using alloc_size_negative_64 [OF p64 neg] m64 by simp
  have b32: "fstat_ok ilp32" by (simp add: ilp32_def)
  have c32: "\<not> to_size_t ilp32 (sint (word_of_nat (length negative_count_header) :: 32 word))
      < sizeof_PacHeader"
    by (simp add: nch_length to_size_t_def ilp32_def sizeof_PacHeader_def)
  have m32: "malloc_ok ilp32 (headers_alloc_size ilp32 (sint (0xC0000000 :: 32 word)))"
    by (simp add: alloc0) (simp add: ilp32_def)
  note t32 = partition_count_handling [OF a b32 c32 mk_out nch_read nch_name nch_start nch_count]
  from t32 m32 neg have r32: "main_extract ilp32 ''fw.pac'' ''out'' negative_count_world
       = (Inr (), ?W)"
    by blast
  have run: "read_headers ilp32 0 negative_count_header (sint (0xC0000000 :: 32 word)) 0 0 [] ?W
      = (Inr [], ?W)"
    by (rule read_headers_negative) simp
  from t32 run have "\<exists>evs. stdout ?W = stdout ?W @ evs
      \<and> length evs \<le> nat (sint (0xC0000000 :: 32 word))
      \<and> (\<forall>partHeaders. (Inr [] :: abort + byte list list) = Inr partHeaders \<longrightarrow>
            length partHeaders = nat (sint (0xC0000000 :: 32 word)))"
    by blast
  then have ev: "\<exists>evs. stdout ?W = stdout ?W @ evs
      \<and> length evs \<le> nat (sint (0xC0000000 :: 32 word))" by blast
  let ?F = "put (Firmware_name ''f'') (full_world\<lparr>dirs := {''out''}\<rparr>)"
  let ?hs = "[sample_record [0, 0, 0, 0] [0, 0, 0, 0], sample_record [5, 0, 0, 0] [0, 0, 0, 0]]"
  have fa: "files full_world ''fw.pac'' = Some full_container" by (simp add: full_world_def)
  note fc = full_size
  have frun: "read_headers lp64 16 full_container (sint (2 :: 32 word)) 0 1220 [] ?F
      = (Inr ?hs, put (Partition_info ''a'' ''b'' 5) (put (Partition_info ''a'' ''b'' 0) ?F))"
    using full_read_headers [of ?F] by simp
  note tf = partition_count_handling [OF fa b64 fc full_createOutputDirectory full_readPacHeader
      full_firmwareName full_start full_count]
  from tf frun have "\<exists>evs.
        stdout (put (Partition_info ''a'' ''b'' 5) (put (Partition_info ''a'' ''b'' 0) ?F))
          = stdout ?F @ evs
      \<and> length evs \<le> nat (sint (2 :: 32 word))
      \<and> (\<forall>partHeaders. (Inr ?hs :: abort + byte list list) = Inr partHeaders \<longrightarrow>
            length partHeaders = nat (sint (2 :: 32 word)))"
    by blast
  then have fev: "\<exists>evs.
        stdout (put (Partition_info ''a'' ''b'' 5) (put (Partition_info ''a'' ''b'' 0) ?F))
          = stdout ?F @ evs
      \<and> length evs \<le> nat (sint (2 :: 32 word))
      \<and> length ?hs = nat (sint (2 :: 32 word))"
    by blast
  have fm: "malloc_ok lp64 (headers_alloc_size lp64 (sint (2 :: 32 word)))"
    by (simp only: full_alloc) (simp add: lp64_def)
  from tf fm have feq: "main_extract lp64 ''fw.pac'' ''out'' full_world
       = (case read_headers lp64 (headers_alloc_size lp64 (sint (2 :: 32 word))) full_container
                 (sint (2 :: 32 word)) 0 1220 [] ?F of
            (Inl a, w3) \<Rightarrow> (Inl a, w3)
          | (Inr partHeaders, w3) \<Rightarrow> extract_headers lp64 full_container ''out'' partHeaders w3)"
    by blast
  from tf fm have fne: "fst (main_extract lp64 ''fw.pac'' ''out'' full_world)
       \<noteq> Inl (Exit_failure ''Memory allocation failed for partition headers'')"
    by blast
  have two: "records_printed (stdout full_result) = 2"
    by (simp add: full_result_def records_printed_def)
  from tf full_main_extract have fle: "records_printed (stdout full_result)
       \<le> records_printed (stdout full_world) + nat (sint (2 :: 32 word))"
    by blast
  from a nch_count neg n64 r64 m32 r32 ev full_count frun fev fm feq full_main_extract fne
    two fle
  show ?thesis by (intro conjI)
qed

end
